theory Spec2Isabelle
  imports Complex_Main "HOL-Library.Word" "HOL-Library.Char_ord" "HOL-Library.List_Lexorder"
begin

section \<open>Python values used by ZenTools.py\<close>

text \<open>
  The program is Python 2: a \<open>str\<close> is a byte string, modelled as \<^typ>\<open>string\<close>
  (a list of 8-bit characters), Python integers are \<^typ>\<open>int\<close>, and every exception
  the modelled code can raise is a constructor of \<open>error\<close>. Floating-point cells are
  idealised as \<^typ>\<open>real\<close> numbers.
\<close>

datatype error =
    IndexError
  | ValueError
  | TypeError
  | KeyError
  | IOError
  | StructError
  | ZenGPSError string

text \<open>A slice bound of a sequence of length \<open>n\<close>: negative bounds count from the end,
  and every bound is clamped to \<open>0..n\<close>.\<close>

definition slice_bound :: "int \<Rightarrow> nat \<Rightarrow> nat" where
  "slice_bound i n = (if i < 0 then nat (int n + i) else min (nat i) n)"

text \<open>\<open>xs[i:j]\<close>\<close>

definition py_slice :: "'a list \<Rightarrow> int \<Rightarrow> int \<Rightarrow> 'a list" where
  "py_slice xs i j =
     (let a = slice_bound i (length xs); b = slice_bound j (length xs)
      in take (b - a) (drop a xs))"

text \<open>\<open>xs[i:]\<close>\<close>

definition py_slice_from :: "'a list \<Rightarrow> int \<Rightarrow> 'a list" where
  "py_slice_from xs i = drop (slice_bound i (length xs)) xs"

text \<open>\<open>xs[:j]\<close>\<close>

definition py_slice_to :: "'a list \<Rightarrow> int \<Rightarrow> 'a list" where
  "py_slice_to xs j = take (slice_bound j (length xs)) xs"

text \<open>\<open>xs[i]\<close>: raises IndexError out of range.\<close>

definition py_index :: "'a list \<Rightarrow> int \<Rightarrow> error + 'a" where
  "py_index xs i =
     (if 0 \<le> i \<and> i < int (length xs) then Inr (xs ! nat i)
      else if i < 0 \<and> - int (length xs) \<le> i then Inr (xs ! nat (int (length xs) + i))
      else Inl IndexError)"

text \<open>\<open>s.find(sub, start)\<close>: the lowest index at or after \<open>start\<close> where \<open>sub\<close>
  occurs, or \<open>-1\<close>. \<open>find_from sub s k\<close> searches \<open>s\<close>, whose first character has
  index \<open>k\<close> in the whole string.\<close>

fun find_from :: "string \<Rightarrow> string \<Rightarrow> nat \<Rightarrow> int" where
  "find_from sub [] k = (if sub = [] then int k else -1)"
| "find_from sub (x # xs) k =
     (if take (length sub) (x # xs) = sub then int k else find_from sub xs (Suc k))"

definition py_find :: "string \<Rightarrow> string \<Rightarrow> int option \<Rightarrow> int" where
  "py_find s sub start =
     (let n = int (length s);
          a = (case start of None \<Rightarrow> 0
               | Some i \<Rightarrow> if i < 0 then max 0 (n + i) else i)
      in if n < a then -1 else find_from sub (drop (nat a) s) (nat a))"

section \<open>Zen3D: constants of the constructor\<close>

definition stamp_len :: int where
  "stamp_len = 36"

definition gps_stamp :: string where
  "gps_stamp = [CHR 0xFF, CHR 0xFF, CHR 0xFF, CHR 0xFF]"

definition week_len :: int where
  "week_len = 604800"

definition seconds_diff :: int where
  "seconds_diff = 5"

section \<open>Zen3D.get\_gps\_time\<close>

text \<open>
  The local variables of \<open>get_gps_time\<close> after its \<open>if\<close>: the week number, the
  seconds of the week and the offset \<open>cc\<close>. The week is a local of the method; only
  the time is returned.
\<close>

record gps_time_locals =
  gps_week :: int
  gps_seconds :: real
  gps_ms :: real
  cc :: int

definition get_gps_time_locals :: "int \<Rightarrow> int \<Rightarrow> gps_time_locals" where
  "get_gps_time_locals gps_int week =
     (let seconds = real_of_int gps_int / 1024;
          ms = (seconds - of_int \<lfloor>real_of_int gps_int / 1024\<rfloor>) * 1.024
      in if seconds > of_int week_len
         then \<lparr>gps_week = week + 1, gps_seconds = seconds - of_int week_len,
               gps_ms = ms, cc = (week + 1) * week_len\<rparr>
         else \<lparr>gps_week = week, gps_seconds = seconds, gps_ms = ms, cc = 0\<rparr>)"

definition get_gps_time :: "int \<Rightarrow> int \<Rightarrow> real" where
  "get_gps_time gps_int week =
     (let l = get_gps_time_locals gps_int week
      in of_int \<lfloor>gps_seconds l\<rfloor> + gps_ms l + of_int (cc l))"

section \<open>Zen3D.get\_gps\_stamp\_location\<close>

text \<open>
  The marker is searched from \<open>start_index\<close>; then up to four times the byte four
  places after the candidate is read, and the candidate moves one byte on when that
  byte is the sentinel. Reading past the end of the data raises IndexError; a
  candidate of \<open>-1\<close> (marker not found) is used as an index like any other.
\<close>

definition get_gps_stamp_location :: "string \<Rightarrow> int option \<Rightarrow> error + int" where
  "get_gps_stamp_location raw_data start_index =
     (let i0 = py_find raw_data gps_stamp start_index in
      case py_index raw_data (i0 + 4) of Inl e \<Rightarrow> Inl e
      | Inr c0 \<Rightarrow> if c0 \<noteq> CHR 0xFF then Inr i0 else
     (let i1 = i0 + 1 in
      case py_index raw_data (i1 + 4) of Inl e \<Rightarrow> Inl e
      | Inr c1 \<Rightarrow> if c1 \<noteq> CHR 0xFF then Inr i1 else
     (let i2 = i1 + 1 in
      case py_index raw_data (i2 + 4) of Inl e \<Rightarrow> Inl e
      | Inr c2 \<Rightarrow> if c2 \<noteq> CHR 0xFF then Inr i2 else
     (let i3 = i2 + 1 in
      case py_index raw_data (i3 + 4) of Inl e \<Rightarrow> Inl e
      | Inr c3 \<Rightarrow> if c3 \<noteq> CHR 0xFF then Inr i3 else Inr (i3 + 1)))))"

section \<open>Decoded channels\<close>

text \<open>
  The attributes of a \<open>Zen3D\<close> object that \<open>ZenCache\<close> reads after \<open>read_3d\<close>.
  The sampling rate \<open>df\<close> is a float holding the integer of the header's
  \<open>a/d rate\<close>; the samples are floats.
\<close>

record zen3d =
  df :: int
  time_series :: "real list"
  gps_diff :: "real list"
  gps_lst :: "int list"
  date_time :: "string list"
  gps_time :: "real list"
  ch_number :: string
  ch_cmp :: string
  ch_length :: string
  ch_adcard_sn :: string
  rx_stn :: string

text \<open>\<open>int(s)\<close> on a string: surrounding white space, an optional sign, decimal
  digits; anything else raises ValueError.\<close>

definition is_space :: "char \<Rightarrow> bool" where
  "is_space c = (c \<in> set [CHR '' '', CHR 0x09, CHR 0x0A, CHR 0x0B, CHR 0x0C, CHR 0x0D])"

definition py_strip :: "string \<Rightarrow> string" where
  "py_strip s = rev (dropWhile is_space (rev (dropWhile is_space s)))"

definition is_digit :: "char \<Rightarrow> bool" where
  "is_digit c = (CHR ''0'' \<le> c \<and> c \<le> CHR ''9'')"

definition digits_value :: "string \<Rightarrow> int" where
  "digits_value ds = foldl (\<lambda>acc c. 10 * acc + (of_char c - 48)) 0 ds"

definition py_int_of_str :: "string \<Rightarrow> error + int" where
  "py_int_of_str s =
     (let t = py_strip s;
          (sign, ds) = (case t of
                          c # r \<Rightarrow> if c = CHR ''-'' then (-1, r)
                                   else if c = CHR ''+'' then (1, r) else (1, t)
                        | [] \<Rightarrow> (1, t))
      in if ds \<noteq> [] \<and> list_all is_digit ds then Inr (sign * digits_value ds)
         else Inl ValueError)"

section \<open>ZenCache.check\_time\_series\<close>

text \<open>\<open>int(zt.date_time[0][-2:])\<close>: the seconds field of the first stamp.\<close>

definition start_second :: "zen3d \<Rightarrow> error + int" where
  "start_second zt =
     (case py_index (date_time zt) 0 of Inl e \<Rightarrow> Inl e
      | Inr d \<Rightarrow> py_int_of_str (py_slice_from d (-2)))"

fun start_seconds :: "zen3d list \<Rightarrow> error + int list" where
  "start_seconds [] = Inr []"
| "start_seconds (zt # zts) =
     (case start_second zt of Inl e \<Rightarrow> Inl e
      | Inr s \<Rightarrow> (case start_seconds zts of Inl e \<Rightarrow> Inl e | Inr ss \<Rightarrow> Inr (s # ss)))"

text \<open>
  \<open>skip_dict\<close>: zero for every channel when all channels share the largest seconds
  field, and otherwise the largest field minus the channel's own.
\<close>

definition skip_dict :: "int list \<Rightarrow> int list" where
  "skip_dict st_lst =
     (let mx = Max (set st_lst);
          time_max = filter (\<lambda>s. s = mx) st_lst
      in if length time_max \<noteq> length st_lst then map (\<lambda>s. mx - s) st_lst
         else map (\<lambda>s. 0) st_lst)"

text \<open>
  The body of the loop that changes the data of one channel. The object is changed in
  place, attribute by attribute; the last assignment subscripts the dictionary
  \<open>skip_dict\<close> with the slice \<open>ii:\<close>, which raises TypeError (a slice is not
  hashable), so the channel is returned as it is at that point together with the error.
\<close>

definition skip_channel :: "zen3d \<Rightarrow> int \<Rightarrow> zen3d \<times> error option" where
  "skip_channel zt skip =
     (if skip \<noteq> 0
      then (zt\<lparr>time_series := py_slice_from (time_series zt) (skip * df zt),
               gps_diff := py_slice_from (gps_diff zt) skip,
               gps_lst := py_slice_from (gps_lst zt) skip,
               date_time := py_slice_from (date_time zt) skip\<rparr>,
            Some TypeError)
      else (zt, None))"

fun skip_channels :: "zen3d list \<Rightarrow> int list \<Rightarrow> zen3d list \<times> error option" where
  "skip_channels (zt # zts) (skip # skips) =
     (case skip_channel zt skip of
        (zt', Some e) \<Rightarrow> (zt' # zts, Some e)
      | (zt', None) \<Rightarrow>
          (case skip_channels zts skips of (zts', r) \<Rightarrow> (zt' # zts', r)))"
| "skip_channels zts skips = (zts, None)"

text \<open>The second loop: every series is cut to the shortest length.\<close>

definition trim_channels :: "zen3d list \<Rightarrow> nat \<Rightarrow> zen3d list" where
  "trim_channels zts ts_min =
     map (\<lambda>zt. if length (time_series zt) \<noteq> ts_min
               then zt\<lparr>time_series := py_slice_to (time_series zt) (int ts_min)\<rparr>
               else zt) zts"

text \<open>\<open>ts_array\<close>: one row per sample, one column per channel.\<close>

definition ts_array_of :: "zen3d list \<Rightarrow> nat \<Rightarrow> real list list" where
  "ts_array_of zts ts_min = map (\<lambda>zz. map (\<lambda>zt. time_series zt ! zz) zts) [0..<ts_min]"

text \<open>
  The method returns the matrix and its number of rows, or raises; in both cases the
  channel objects keep the changes made to them, so the model returns them too. The
  lines appended to the log are left out.
\<close>

definition check_time_series :: "zen3d list \<Rightarrow> (error + real list list \<times> nat) \<times> zen3d list" where
  "check_time_series zt_lst =
     (case start_seconds zt_lst of Inl e \<Rightarrow> (Inl e, zt_lst)
      | Inr st_lst \<Rightarrow>
          if st_lst = [] then (Inl ValueError, zt_lst)
          else (case skip_channels zt_lst (skip_dict st_lst) of
                  (zts, Some e) \<Rightarrow> (Inl e, zts)
                | (zts, None) \<Rightarrow>
                    (let ts_min = Min (set (map (\<lambda>zt. length (time_series zt)) zts));
                         zts' = trim_channels zts ts_min
                     in (Inr (ts_array_of zts' ts_min, ts_min), zts'))))"

section \<open>Binary encoding\<close>

definition bind_err :: "error + 'a \<Rightarrow> ('a \<Rightarrow> error + 'b) \<Rightarrow> error + 'b" where
  "bind_err m f = (case m of Inl e \<Rightarrow> Inl e | Inr x \<Rightarrow> f x)"

definition in_int32 :: "int \<Rightarrow> bool" where
  "in_int32 n = (- 2147483648 \<le> n \<and> n \<le> 2147483647)"

text \<open>Arithmetic on 32-bit array elements wraps around without an error.\<close>

definition wrap_int32 :: "int \<Rightarrow> int" where
  "wrap_int32 n = (n + 2147483648) mod 4294967296 - 2147483648"

definition int32_bytes :: "int \<Rightarrow> string" where
  "int32_bytes n = [char_of (n mod 256), char_of (n div 256 mod 256),
                    char_of (n div 65536 mod 256), char_of (n div 16777216 mod 256)]"

definition int16_bytes :: "int \<Rightarrow> string" where
  "int16_bytes n = [char_of (n mod 256), char_of (n div 256 mod 256)]"

text \<open>\<open>struct.pack('<i', n)\<close> and \<open>struct.pack('<h', n)\<close> on a Python integer.\<close>

definition pack_i :: "int \<Rightarrow> error + string" where
  "pack_i n = (if in_int32 n then Inr (int32_bytes n) else Inl StructError)"

definition pack_h :: "int \<Rightarrow> error + string" where
  "pack_h n = (if - 32768 \<le> n \<and> n \<le> 32767 then Inr (int16_bytes n) else Inl StructError)"

text \<open>\<open>int(x)\<close> on a float: the fraction is cut off. \<open>struct.pack\<close> takes a float
  for an integer code through this conversion.\<close>

definition py_trunc :: "real \<Rightarrow> int" where
  "py_trunc x = (if x < 0 then \<lceil>x\<rceil> else \<lfloor>x\<rfloor>)"

definition int32_of4 :: "char \<Rightarrow> char \<Rightarrow> char \<Rightarrow> char \<Rightarrow> int" where
  "int32_of4 a b c d =
     wrap_int32 (of_char a + 256 * of_char b + 65536 * of_char c + 16777216 * of_char d)"

definition int16_of2 :: "char \<Rightarrow> char \<Rightarrow> int" where
  "int16_of2 a b =
     (let u = of_char a + 256 * of_char b in if 32768 \<le> u then u - 65536 else (u :: int))"

text \<open>\<open>np.fromstring(s, dtype=np.int32)\<close>: the little-endian words of \<open>s\<close>; the
  length of \<open>s\<close> must be a multiple of four.\<close>

fun int32_words :: "string \<Rightarrow> int list" where
  "int32_words (a # b # c # d # rest) = int32_of4 a b c d # int32_words rest"
| "int32_words rest = []"

definition np_fromstring_int32 :: "string \<Rightarrow> error + int list" where
  "np_fromstring_int32 s =
     (if length s mod 4 \<noteq> 0 then Inl ValueError else Inr (int32_words s))"

text \<open>\<open>np.fromstring(s, dtype=np.int8)\<close>\<close>

definition np_fromstring_int8 :: "string \<Rightarrow> int list" where
  "np_fromstring_int8 s = map (\<lambda>c. let u = of_char c in if 128 \<le> u then u - 256 else (u :: int)) s"

section \<open>ZenCache: constants and the block stamp\<close>

definition cache_stamp_len :: int where
  "cache_stamp_len = 10"

definition nav_len :: int where
  "nav_len = 43"

definition cache_flag :: int where
  "cache_flag = -1"

definition type_nav :: int where "type_nav = 4"
definition type_meta :: int where "type_meta = 514"
definition type_cal :: int where "type_cal = 768"
definition type_ts :: int where "type_ts = 16"

text \<open>The record type \<open>_data_type\<close> of a block stamp: ten bytes.\<close>

record block =
  len :: int
  flag :: int
  input_type :: int

fun block_records :: "string \<Rightarrow> block list" where
  "block_records (a # b # c # d # e # f # g # h # i # j # rest) =
     \<lparr>len = int32_of4 a b c d, flag = int32_of4 e f g h, input_type = int16_of2 i j\<rparr>
     # block_records rest"
| "block_records rest = []"

definition np_fromstring_block :: "string \<Rightarrow> error + block list" where
  "np_fromstring_block s =
     (if length s mod 10 \<noteq> 0 then Inl ValueError else Inr (block_records s))"

section \<open>Strings\<close>

text \<open>\<open>s.split(sep)\<close> for a separator of one character.\<close>

fun py_split :: "char \<Rightarrow> string \<Rightarrow> string list" where
  "py_split sep [] = [[]]"
| "py_split sep (c # cs) =
     (if c = sep then [] # py_split sep cs
      else (case py_split sep cs of w # ws \<Rightarrow> (c # w) # ws | [] \<Rightarrow> [[c]]))"

definition py_upper :: "string \<Rightarrow> string" where
  "py_upper s =
     map (\<lambda>c. if CHR ''a'' \<le> c \<and> c \<le> CHR ''z'' then char_of (of_char c - (32 :: nat)) else c) s"

text \<open>The decimal text of an integer, as \<open>str\<close> and \<open>format\<close> give it.\<close>

fun str_nat :: "nat \<Rightarrow> string" where
  "str_nat n =
     (if n < 10 then [char_of (48 + n)] else str_nat (n div 10) @ [char_of (48 + n mod 10)])"

declare str_nat.simps [simp del]

definition str_int :: "int \<Rightarrow> string" where
  "str_int i = (if i < 0 then CHR ''-'' # str_nat (nat (- i)) else str_nat (nat i))"

section \<open>Dictionaries with string keys\<close>

definition dict_get :: "(string \<times> 'v) list \<Rightarrow> string \<Rightarrow> error + 'v" where
  "dict_get d k = (case map_of d k of None \<Rightarrow> Inl KeyError | Some v \<Rightarrow> Inr v)"

fun dict_set :: "(string \<times> 'v) list \<Rightarrow> string \<Rightarrow> 'v \<Rightarrow> (string \<times> 'v) list" where
  "dict_set [] k v = [(k, v)]"
| "dict_set ((k', v') # d) k v =
     (if k' = k then (k, v) # d else (k', v') # dict_set d k v)"

text \<open>\<open>d[k] += s\<close>\<close>

definition dict_append ::
  "(string \<times> string) list \<Rightarrow> string \<Rightarrow> string \<Rightarrow> error + (string \<times> string) list" where
  "dict_append d k s = bind_err (dict_get d k) (\<lambda>v. Inr (dict_set d k (v @ s)))"

section \<open>ZenCache.write\_cache\_file\<close>

text \<open>The attribute \<open>meta_data\<close> of a new \<open>ZenCache\<close>, and its other constants.\<close>

definition meta_data_init :: "(string \<times> string) list" where
  "meta_data_init =
     [(''SURVEY.ACQMETHOD'', '',timeseries''),
      (''SURVEY.TYPE'', '',''),
      (''LENGTH.UNITS'', '',m''),
      (''DATA.DATE0'', ''''),
      (''DATA.TIME0'', ''''),
      (''TS.ADFREQ'', ''''),
      (''TS.NPNT'', ''''),
      (''CH.NUNOM'', '',''),
      (''CH.FACTOR'', ''''),
      (''CH.GAIN'', ''''),
      (''CH.NUMBER'', ''''),
      (''CH.CMP'', ''''),
      (''CH.LENGTH'', ''''),
      (''CH.EXTGAIN'', ''''),
      (''CH.NOTCH'', ''''),
      (''CH.HIGHPASS'', ''''),
      (''CH.LOWPASS'', ''''),
      (''CH.ADCARDSN'', ''''),
      (''CH.STATUS'', '',''),
      (''CH.SP'', '',''),
      (''CH.GDPSLOT'', '',''),
      (''RX.STN'', ''''),
      (''RX.AZIMUTH'', '',''),
      (''LINE.NAME'', '',''),
      (''LINE.NUMBER'', '',''),
      (''LINE.DIRECTION'', '',''),
      (''LINE.SPREAD'', '',''),
      (''JOB.NAME'', '',''),
      (''JOB.FOR'', '',''),
      (''JOB.BY'', '',''),
      (''JOB.NUMBER'', '',''),
      (''GDP.File'', '',''),
      (''GDP.SN'', '',''),
      (''GDP.TCARDSN'', '',''),
      (''GDP.NUMCARD'', '',''),
      (''GDP.ADCARDSN'', '',''),
      (''GDP.ADCARDSND'', '',''),
      (''GDP.CARDTYPE'', '',''),
      (''GDP.BAT'', '',''),
      (''GDP.TEMP'', '',''),
      (''GDP.HUMID'', '',''),
      (''TS.NCYCLE'', '',''),
      (''TS.NWAVEFORM'', '',''),
      (''TS.DECFAC'', '',''),
      (''TX.SN,NONE'', '',''),
      (''TX.STN'', '',''),
      (''TX.FREQ'', '',''),
      (''TX.DUTY'', '',''),
      (''TX.AMP'', '',''),
      (''TX.SHUNT'', '','')]"

definition ch_factor :: string where
  "ch_factor = ''9.5367431640625e-10''"

definition ch_gain :: string where
  "ch_gain = ''01-0''"

definition ch_lowpass_dict :: "(string \<times> string) list" where
  "ch_lowpass_dict = [(''256'', ''112''), (''1024'', ''576''), (''4096'', ''1792'')]"

text \<open>
  The body of the loop over the files: the metadata of one decoded channel \<open>zt1\<close> is
  written into the dictionary, in the order of the source.
\<close>

definition fill_meta_data ::
  "zen3d \<Rightarrow> (string \<times> string) list \<Rightarrow> error + (string \<times> string) list" where
  "fill_meta_data zt1 md0 =
     bind_err (py_index (date_time zt1) 0) (\<lambda>d0.
     bind_err (py_index (py_split CHR '','' d0) 0) (\<lambda>date0.
     bind_err (py_index (py_split CHR '','' d0) 1) (\<lambda>time0.
     bind_err (dict_append
       (dict_set (dict_set (dict_set md0 ''DATA.DATE0'' (CHR '','' # date0))
          ''DATA.TIME0'' (CHR '','' # time0)) ''TS.ADFREQ'' (CHR '','' # str_int (df zt1)))
       ''CH.FACTOR'' (CHR '','' # ch_factor)) (\<lambda>md.
     bind_err (dict_append md ''CH.GAIN'' (CHR '','' # ch_gain)) (\<lambda>md.
     bind_err (dict_append md ''CH.CMP'' (CHR '','' # py_upper (ch_cmp zt1))) (\<lambda>md.
     bind_err (dict_append md ''CH.LENGTH'' (CHR '','' # ch_length zt1)) (\<lambda>md.
     bind_err (dict_append md ''CH.EXTGAIN'' '',1'') (\<lambda>md.
     bind_err (dict_append md ''CH.NOTCH'' '',NONE'') (\<lambda>md.
     bind_err (dict_append md ''CH.HIGHPASS'' '',NONE'') (\<lambda>md.
     bind_err (dict_get ch_lowpass_dict (str_int (df zt1))) (\<lambda>lowpass.
     bind_err (dict_append md ''CH.LOWPASS'' (CHR '','' # lowpass)) (\<lambda>md.
     bind_err (dict_append md ''CH.ADCARDSN'' (CHR '','' # ch_adcard_sn zt1)) (\<lambda>md.
     bind_err (dict_append md ''CH.NUMBER'' (CHR '','' # ch_number zt1)) (\<lambda>md.
     dict_append md ''RX.STN'' (CHR '','' # rx_stn zt1)))))))))))))))"

fun fill_meta_data_all ::
  "zen3d list \<Rightarrow> (string \<times> string) list \<Rightarrow> error + (string \<times> string) list" where
  "fill_meta_data_all [] md = Inr md"
| "fill_meta_data_all (zt1 # zts) md =
     bind_err (fill_meta_data zt1 md) (fill_meta_data_all zts)"

text \<open>The text of the metadata block: one line per key, the keys in sorted order.\<close>

definition meta_line :: "(string \<times> string) list \<Rightarrow> string \<Rightarrow> string" where
  "meta_line md key = key @ (case map_of md key of Some v \<Rightarrow> v | None \<Rightarrow> []) @ [CHR 0x0A]"

definition meta_str_of :: "(string \<times> string) list \<Rightarrow> string" where
  "meta_str_of md = concat (map (meta_line md) (sort (map fst md)))"

text \<open>The placeholder text of the calibration block.\<close>

definition cal_piece :: string where
  "cal_piece =
     concat (replicate 27 ('' 0.000000: '' @ concat (replicate 3 ''0.000000      0.000000,'')))"

definition cal_data1 :: string where
  "cal_data1 = ''HEADER.TYPE,Calibrate'' @ [CHR 0x0A] @ ''CAL.VER,019'' @ [CHR 0x0A]
               @ ''CAL.SYS,0000,'' @ cal_piece"

definition cal_data2 :: string where
  "cal_data2 = [CHR 0x0A] @ ''CAL.SYS,0000,'' @ cal_piece"

definition cal_data_of :: "nat \<Rightarrow> string" where
  "cal_data_of n_fn = cal_data1 @ concat (replicate (n_fn - 1) cal_data2)"

text \<open>The three writes that open a block: length, flag and type.\<close>

definition block_stamp :: "int \<Rightarrow> int \<Rightarrow> error + string" where
  "block_stamp l t =
     bind_err (pack_i l) (\<lambda>a.
     bind_err (pack_i cache_flag) (\<lambda>b.
     bind_err (pack_h t) (\<lambda>c. Inr (a @ b @ c))))"

text \<open>
  One row of the matrix. \<open>struct.pack\<close> with \<open>n_fn\<close> codes \<open>i\<close> raises
  \<open>struct.error\<close> when the number of values is not \<open>n_fn\<close> or a value is outside
  the 32-bit range; the handler then writes the row value by value.
\<close>

definition pack_row :: "nat \<Rightarrow> real list \<Rightarrow> error + string" where
  "pack_row n_fn row =
     (if length row = n_fn \<and> list_all (\<lambda>x. in_int32 (py_trunc x)) row
      then Inr (concat (map (\<lambda>x. int32_bytes (py_trunc x)) row))
      else Inl StructError)"

definition clip_message :: "nat \<Rightarrow> nat \<Rightarrow> string" where
  "clip_message nn zz =
     ''had to clip number for '' @ str_nat nn @ '' at point '' @ str_nat zz"

definition clip_value :: "nat \<Rightarrow> nat \<Rightarrow> real \<Rightarrow> error + string \<times> string list" where
  "clip_value zz nn x =
     (if \<bar>x\<bar> > 2140000000
      then bind_err (pack_i (py_trunc (sgn (x * 2140000000))))
             (\<lambda>b. Inr (b, [clip_message nn zz]))
      else bind_err (pack_i (py_trunc x)) (\<lambda>b. Inr (b, [])))"

fun clip_row :: "nat \<Rightarrow> real list \<Rightarrow> nat list \<Rightarrow> error + string \<times> string list" where
  "clip_row zz row [] = Inr ([], [])"
| "clip_row zz row (nn # nns) =
     bind_err (py_index row (int nn)) (\<lambda>x.
     bind_err (clip_value zz nn x) (\<lambda>(b, l).
     bind_err (clip_row zz row nns) (\<lambda>(bs, ls). Inr (b @ bs, l @ ls))))"

definition write_row :: "nat \<Rightarrow> real list list \<Rightarrow> nat \<Rightarrow> error + string \<times> string list" where
  "write_row n_fn ts zz =
     bind_err (py_index ts (int zz)) (\<lambda>row.
       case pack_row n_fn row of
         Inr b \<Rightarrow> Inr (b, [])
       | Inl e \<Rightarrow> clip_row zz row [0..<n_fn])"

fun write_rows :: "nat \<Rightarrow> real list list \<Rightarrow> nat list \<Rightarrow> error + string \<times> string list" where
  "write_rows n_fn ts [] = Inr ([], [])"
| "write_rows n_fn ts (zz # zzs) =
     bind_err (write_row n_fn ts zz) (\<lambda>(b, l).
     bind_err (write_rows n_fn ts zzs) (\<lambda>(bs, ls). Inr (b @ bs, l @ ls)))"

text \<open>
  The part of \<open>write_cache_file\<close> after \<open>check_time_series\<close>: the number of
  points is entered into the metadata dictionary \<open>md\<close> that the loop over the files
  has filled, and the four blocks are written for \<open>n_fn\<close> channels and the matrix
  \<open>ts\<close> of \<open>ts_len\<close> rows. The result is the bytes written to the cache file and the
  lines appended to the log while the samples are written. The choice of the file name
  and the closing log lines are left out.
\<close>

definition write_cache_frames ::
  "(string \<times> string) list \<Rightarrow> nat \<Rightarrow> real list list \<Rightarrow> nat \<Rightarrow> error + string \<times> string list" where
  "write_cache_frames md n_fn ts ts_len =
     bind_err (block_stamp nav_len type_nav) (\<lambda>nav_stamp.
     bind_err (pack_i nav_len) (\<lambda>nav_end.
     let meta_str = meta_str_of (dict_set md ''TS.NPNT'' (CHR '','' # str_nat ts_len));
         meta_len = int (length meta_str) in
     bind_err (block_stamp (meta_len + 2) type_meta) (\<lambda>meta_stamp.
     bind_err (pack_i (meta_len + 2)) (\<lambda>meta_end.
     let cal_data = cal_data_of n_fn;
         cal_len = int (length cal_data) in
     bind_err (block_stamp (cal_len + 2) type_cal) (\<lambda>cal_stamp.
     bind_err (pack_i (cal_len + 2)) (\<lambda>cal_end.
     let ts_block_len = int ts_len * int n_fn * 4 + 2 in
     bind_err (block_stamp ts_block_len type_ts) (\<lambda>ts_stamp.
     bind_err (write_rows n_fn ts [0..<ts_len]) (\<lambda>(ts_bytes, log_lines).
     bind_err (pack_i ts_block_len) (\<lambda>ts_end.
     Inr (nav_stamp @ replicate (nat (nav_len - 2)) (CHR 0x00) @ nav_end
          @ meta_stamp @ meta_str @ meta_end
          @ cal_stamp @ py_slice_to cal_data (-1) @ [CHR 0x0A] @ cal_end
          @ ts_stamp @ ts_bytes @ ts_end,
          log_lines))))))))))"

section \<open>ZenCache.read\_cache\<close>

text \<open>
  An integer array is used as an index, or converted by \<open>int\<close>, only when it has
  exactly one element; otherwise TypeError is raised.
\<close>

definition array_index :: "int list \<Rightarrow> error + int" where
  "array_index a = (case a of [x] \<Rightarrow> Inr x | _ \<Rightarrow> Inl TypeError)"

text \<open>
  \<open>ii + block['len'] - 2\<close>: a Python integer plus an array of 32-bit integers. When
  the integer fits 32 bits the result is again an array of 32-bit integers and both
  operations wrap around; otherwise the array is widened to 64 bits first.
\<close>

definition frame_end :: "int \<Rightarrow> int list \<Rightarrow> int list" where
  "frame_end ii lens =
     (if in_int32 ii then map (\<lambda>l. wrap_int32 (wrap_int32 (ii + l) - 2)) lens
      else map (\<lambda>l. ii + l - 2) lens)"

text \<open>The stamp of the block at \<open>ii\<close>: the array of its length field and the bounds
  of the payload.\<close>

definition block_at :: "string \<Rightarrow> int \<Rightarrow> error + int list \<times> int \<times> int" where
  "block_at cdata ii =
     bind_err (np_fromstring_block (py_slice cdata ii (ii + cache_stamp_len))) (\<lambda>blk.
     bind_err (array_index (frame_end (ii + cache_stamp_len) (map len blk))) (\<lambda>jj.
     Inr (map len blk, ii + cache_stamp_len, jj)))"

text \<open>
  The truth value of \<open>a != b\<close> for two arrays. An array of one element is true when
  the element is; an empty array is false. Only arrays of at most one element arise in
  \<open>read_cache\<close>; an array of more elements has no truth value (ValueError).
\<close>

definition np_not_equal :: "int list \<Rightarrow> int list \<Rightarrow> error + bool" where
  "np_not_equal a b =
     (case (a, b) of
        ([x], [y]) \<Rightarrow> Inr (x \<noteq> y)
      | ([], _) \<Rightarrow> Inr False
      | (_, []) \<Rightarrow> Inr False
      | _ \<Rightarrow> Inl ValueError)"

text \<open>The test of the length repeated after a payload that ends at \<open>jj\<close>.\<close>

definition length_check :: "string \<Rightarrow> int \<Rightarrow> int list \<Rightarrow> error + unit" where
  "length_check cdata jj lens =
     bind_err (np_fromstring_int32 (py_slice cdata jj (jj + 4))) (\<lambda>len_check.
     bind_err (np_not_equal len_check lens) (\<lambda>differ.
     if differ then Inl IOError else Inr ()))"

definition parse_meta_line :: "string \<Rightarrow> string \<times> string list" where
  "parse_meta_line mm =
     (let mfind = py_find mm '','' None
      in (py_slice mm 0 mfind, py_split CHR '','' (py_slice_from mm (mfind + 1))))"

definition parse_meta :: "string \<Rightarrow> (string \<rightharpoonup> string list)" where
  "parse_meta s =
     fold (\<lambda>mm m. m(fst (parse_meta_line mm) \<mapsto> snd (parse_meta_line mm)))
       (py_split (CHR 0x0A) s) Map.empty"

text \<open>\<open>a.reshape(rows, cols)\<close>: ValueError unless the sizes agree.\<close>

fun rows_of :: "nat \<Rightarrow> nat \<Rightarrow> 'a list \<Rightarrow> 'a list list" where
  "rows_of 0 cols xs = []"
| "rows_of (Suc rows) cols xs = take cols xs # rows_of rows cols (drop cols xs)"

definition np_reshape :: "'a list \<Rightarrow> nat \<Rightarrow> nat \<Rightarrow> error + 'a list list" where
  "np_reshape a rows cols =
     (if rows * cols = length a then Inr (rows_of rows cols a) else Inl ValueError)"

record cache =
  nav_data :: "int list"
  meta_data :: "string \<rightharpoonup> string list"
  cal_data :: string
  ts :: "int list list"

definition read_cache :: "string \<Rightarrow> error + cache" where
  "read_cache cdata =
     bind_err (block_at cdata 0) (\<lambda>(nav_lens, ii, jj).
     let nav = np_fromstring_int8 (py_slice cdata ii jj) in
     bind_err (length_check cdata jj nav_lens) (\<lambda>_.
     bind_err (block_at cdata (jj + 4)) (\<lambda>(meta_lens, ii, jj).
     let meta = parse_meta (py_slice cdata ii jj) in
     bind_err (length_check cdata jj meta_lens) (\<lambda>_.
     bind_err (block_at cdata (jj + 4)) (\<lambda>(cal_lens, ii, jj).
     let cal = py_slice cdata ii jj in
     bind_err (length_check cdata jj cal_lens) (\<lambda>_.
     bind_err (block_at cdata (jj + 4)) (\<lambda>(ts_lens, ii, jj).
     bind_err (np_fromstring_int32 (py_slice cdata ii jj)) (\<lambda>flat.
     bind_err (case meta ''CH.CMP'' of None \<Rightarrow> Inl KeyError
               | Some cmp \<Rightarrow> Inr (length cmp)) (\<lambda>num_chn.
     bind_err (np_reshape flat (length flat div num_chn) num_chn) (\<lambda>samples.
     bind_err (length_check cdata jj ts_lens) (\<lambda>_.
     Inr \<lparr>nav_data = nav, meta_data = meta, cal_data = cal, ts = samples\<rparr>)))))))))))"

text \<open>
  The metadata strings of a decoded channel as \<open>read_3d\<close> leaves them: it cuts the
  header and the metadata block at line feeds and commas, so no attribute holds a line
  feed and the component name holds no comma.
\<close>

definition meta_text_ok :: "zen3d \<Rightarrow> bool" where
  "meta_text_ok zt \<longleftrightarrow>
     CHR 0x0A \<notin> set (ch_cmp zt) \<and> CHR '','' \<notin> set (ch_cmp zt)
     \<and> CHR 0x0A \<notin> set (ch_length zt) \<and> CHR 0x0A \<notin> set (ch_adcard_sn zt)
     \<and> CHR 0x0A \<notin> set (ch_number zt) \<and> CHR 0x0A \<notin> set (rx_stn zt)
     \<and> CHR 0x0A \<notin> set (concat (take 1 (date_time zt)))"

section \<open>The layout of a cache file\<close>

text \<open>
  A block of the file as \<open>read_cache\<close> walks it: the four bytes of the leading length
  field \<open>h\<close>, six bytes \<open>g\<close> of flag and type, the payload, and the four bytes of
  the trailing length field \<open>e\<close>. The leading field holds the length of the payload
  plus two.
\<close>

definition frame :: "string \<Rightarrow> string \<Rightarrow> string \<Rightarrow> string \<Rightarrow> string" where
  "frame h g payload e = h @ g @ payload @ e"

definition framed :: "string \<Rightarrow> string \<Rightarrow> string \<Rightarrow> string \<Rightarrow> bool" where
  "framed h g payload e \<longleftrightarrow>
     length h = 4 \<and> length g = 6 \<and> length e = 4
     \<and> int32_words h = [int (length payload) + 2]"

text \<open>Two decoded channels for concrete runs: the first stamp of one has the seconds
  field 05, that of the other 03.\<close>

definition channel_5 :: zen3d where
  "channel_5 = \<lparr>df = 2, time_series = [1, 2, 3, 4, 5, 6, 7], gps_diff = [1, 1, 1],
     gps_lst = [1024, 1068, 1112],
     date_time = [''2013-06-01,19:00:05'', ''2013-06-01,19:00:06'', ''2013-06-01,19:00:07''],
     gps_time = [5, 6, 7], ch_number = ''1'', ch_cmp = ''hx'', ch_length = ''100'',
     ch_adcard_sn = ''A1'', rx_stn = ''01''\<rparr>"

definition channel_3 :: zen3d where
  "channel_3 = \<lparr>df = 2, time_series = [11, 12, 13, 14, 15, 16, 17, 18, 19, 20],
     gps_diff = [1, 1, 1, 1, 1], gps_lst = [1024, 1068, 1112, 1156, 1200],
     date_time = [''2013-06-01,19:00:03'', ''2013-06-01,19:00:04'', ''2013-06-01,19:00:05'',
                  ''2013-06-01,19:00:06'', ''2013-06-01,19:00:07''],
     gps_time = [3, 4, 5, 6, 7], ch_number = ''2'', ch_cmp = ''hy'', ch_length = ''100'',
     ch_adcard_sn = ''A2'', rx_stn = ''01''\<rparr>"

text \<open>A decoded channel at 256 samples per second, for concrete runs of the cache
  writer.\<close>

definition channel_hx :: zen3d where
  "channel_hx = \<lparr>df = 256, time_series = [7, -3], gps_diff = [1],
     gps_lst = [1024], date_time = [''2013-06-01,19:00:05''],
     gps_time = [5], ch_number = ''1'', ch_cmp = ''hx'', ch_length = ''100'',
     ch_adcard_sn = ''A1'', rx_stn = ''01''\<rparr>"

text \<open>
  A small cache file for concrete runs of the reader: the navigation block of the
  writer, a metadata block holding \<open>meta\<close>, a calibration block of one character and
  a block of samples \<open>payload\<close> whose trailing length field is \<open>trailer\<close>.
  \<open>stamp_tail\<close> is the flag and the type of a block stamp.
\<close>

definition stamp_tail :: "int \<Rightarrow> string" where
  "stamp_tail t = int32_bytes cache_flag @ int16_bytes t"

definition cache_of :: "string \<Rightarrow> string \<Rightarrow> string \<Rightarrow> string" where
  "cache_of meta payload trailer =
     frame (int32_bytes 43) (stamp_tail type_nav) (replicate 41 (CHR 0x00)) (int32_bytes 43)
     @ frame (int32_bytes (int (length meta) + 2)) (stamp_tail type_meta) meta
         (int32_bytes (int (length meta) + 2))
     @ frame (int32_bytes 3) (stamp_tail type_cal) ''c'' (int32_bytes 3)
     @ frame (int32_bytes (int (length payload) + 2)) (stamp_tail type_ts) payload trailer"

section \<open>Floating-point cells\<close>

text \<open>
  The value of a floating-point cell: a finite number, an infinity (\<open>True\<close> for the
  negative one) or not a number.
\<close>

datatype fval = Finite real | Infinite bool | NaN

definition pow2 :: "int \<Rightarrow> real" where
  "pow2 k = (if 0 \<le> k then 2 ^ nat k else 1 / 2 ^ nat (- k))"

text \<open>The little-endian unsigned integer of a byte string.\<close>

definition uint_of_bytes :: "string \<Rightarrow> nat" where
  "uint_of_bytes s = foldr (\<lambda>c acc. of_char c + 256 * acc) s 0"

text \<open>The IEEE 754 value of a bit pattern with \<open>ebits\<close> exponent bits and \<open>mbits\<close>
  fraction bits.\<close>

definition ieee_value :: "nat \<Rightarrow> nat \<Rightarrow> nat \<Rightarrow> fval" where
  "ieee_value ebits mbits bits =
     (let m = bits mod 2 ^ mbits;
          e = (bits div 2 ^ mbits) mod 2 ^ ebits;
          neg = ((bits div 2 ^ (mbits + ebits)) mod 2 = 1);
          bias = 2 ^ (ebits - 1) - 1;
          sign = (if neg then - 1 else 1)
      in if e = 2 ^ ebits - 1 then (if m = 0 then Infinite neg else NaN)
         else if e = 0 then Finite (sign * real m * pow2 (1 - int bias - int mbits))
         else Finite (sign * real (2 ^ mbits + m) * pow2 (int e - int bias - int mbits)))"

definition float64_of :: "string \<Rightarrow> fval" where
  "float64_of s = ieee_value 11 52 (uint_of_bytes s)"

definition float32_of :: "string \<Rightarrow> fval" where
  "float32_of s = ieee_value 8 23 (uint_of_bytes s)"

text \<open>
  A 32-bit integer converted to a 32-bit float and back: the float keeps 24 significant
  bits, rounding to the nearest value and to the even one of two nearest.
\<close>

definition f32_quantum :: "int \<Rightarrow> int" where
  "f32_quantum a =
     (if a < 16777216 then 1 else if a < 33554432 then 2 else if a < 67108864 then 4
      else if a < 134217728 then 8 else if a < 268435456 then 16
      else if a < 536870912 then 32 else if a < 1073741824 then 64
      else if a < 2147483648 then 128 else 256)"

definition round_f32 :: "int \<Rightarrow> int" where
  "round_f32 n =
     (let a = \<bar>n\<bar>; q = f32_quantum a; d = a div q; r = a mod q;
          up = (2 * r > q \<or> (2 * r = q \<and> odd d))
      in sgn n * (if up then (d + 1) * q else d * q))"

section \<open>Zen3D.get\_gps\_stamp\<close>

text \<open>A record of the type \<open>_data_type\<close>: the stamp of 36 bytes.\<close>

record stamp =
  gps :: int
  time :: int
  lat :: fval
  lon :: fval
  status :: int
  gps_accuracy :: int
  temperature :: fval

definition stamp_of :: "string \<Rightarrow> stamp" where
  "stamp_of s =
     \<lparr>gps = (case py_slice s 0 4 of [a, b, c, d] \<Rightarrow> int32_of4 a b c d | _ \<Rightarrow> 0),
      time = (case py_slice s 4 8 of [a, b, c, d] \<Rightarrow> int32_of4 a b c d | _ \<Rightarrow> 0),
      lat = float64_of (py_slice s 8 16),
      lon = float64_of (py_slice s 16 24),
      status = int (uint_of_bytes (py_slice s 24 28)),
      gps_accuracy = (case py_slice s 28 32 of [a, b, c, d] \<Rightarrow> int32_of4 a b c d | _ \<Rightarrow> 0),
      temperature = float32_of (py_slice s 32 36)\<rparr>"

fun stamp_records :: "nat \<Rightarrow> string \<Rightarrow> stamp list" where
  "stamp_records 0 s = []"
| "stamp_records (Suc n) s = stamp_of (take 36 s) # stamp_records n (drop 36 s)"

text \<open>\<open>np.fromstring(s, dtype=self._data_type)\<close>\<close>

definition np_fromstring_stamp :: "string \<Rightarrow> error + stamp list" where
  "np_fromstring_stamp s =
     (if length s mod 36 \<noteq> 0 then Inl ValueError
      else Inr (stamp_records (length s div 36) s))"

text \<open>The truth value of an array of booleans: false when empty, its element when it
  has one, ValueError otherwise.\<close>

definition array_truth :: "bool list \<Rightarrow> error + bool" where
  "array_truth bs = (case bs of [] \<Rightarrow> Inr False | [b] \<Rightarrow> Inr b | _ \<Rightarrow> Inl ValueError)"

text \<open>
  The two assignments to \<open>gps_info['time']\<close>: the field is a 32-bit integer, so the
  float of the first and the seconds of the second are cut back to integers when they
  are stored.
\<close>

definition convert_time :: "stamp list \<Rightarrow> error + stamp list" where
  "convert_time info =
     (let info1 = map (\<lambda>s. s\<lparr>time := wrap_int32 (round_f32 (time s))\<rparr>) info
      in case array_truth (map (\<lambda>s. real_of_int (time s) / 1024 > of_int week_len) info1) of
           Inl e \<Rightarrow> Inl e
         | Inr _ \<Rightarrow>
             Inr (map (\<lambda>s. s\<lparr>time := wrap_int32 (py_trunc (get_gps_time (time s) 0))\<rparr>) info1))"

definition read_stamp :: "string \<Rightarrow> int \<Rightarrow> error + stamp list" where
  "read_stamp raw_data gps_index =
     (case np_fromstring_stamp (py_slice raw_data gps_index (gps_index + stamp_len)) of
        Inl e \<Rightarrow> Inl e
      | Inr info \<Rightarrow> convert_time info)"

text \<open>
  One of the five loops of \<open>get_gps_stamp\<close>: while the test holds of the stamp, the
  next marker after \<open>gps_index + 7\<close> is looked up and its stamp is read. An exception
  is returned with the value of \<open>gps_index\<close> at that moment. Nothing bounds the
  number of rounds.
\<close>

partial_function (option) rescan ::
  "(stamp \<Rightarrow> bool) \<Rightarrow> string \<Rightarrow> stamp list \<Rightarrow> int \<Rightarrow> (error \<times> int + stamp list \<times> int) option" where
  "rescan test raw_data gps_info gps_index =
     (case array_truth (map test gps_info) of
        Inl e \<Rightarrow> Some (Inl (e, gps_index))
      | Inr b \<Rightarrow>
          if \<not> b then Some (Inr (gps_info, gps_index))
          else (case get_gps_stamp_location raw_data (Some (gps_index + 7)) of
                  Inl e \<Rightarrow> Some (Inl (e, gps_index))
                | Inr g \<Rightarrow>
                    (case read_stamp raw_data g of
                       Inl e \<Rightarrow> Some (Inl (e, g))
                     | Inr info \<Rightarrow> rescan test raw_data info g)))"

definition then_rescan ::
  "(stamp \<Rightarrow> bool) \<Rightarrow> string \<Rightarrow> (error \<times> int + stamp list \<times> int)
     \<Rightarrow> (error \<times> int + stamp list \<times> int) option" where
  "then_rescan test raw_data r =
     (case r of Inl x \<Rightarrow> Some (Inl x)
      | Inr (gps_info, gps_index) \<Rightarrow> rescan test raw_data gps_info gps_index)"

text \<open>\<open>np.pi\<close>, the double nearest to the number.\<close>

definition np_pi :: real where
  "np_pi = 884279719003555 / 281474976710656"

definition fabs_gt :: "fval \<Rightarrow> real \<Rightarrow> bool" where
  "fabs_gt v c = (case v of Finite x \<Rightarrow> \<bar>x\<bar> > c | Infinite _ \<Rightarrow> True | NaN \<Rightarrow> False)"

text \<open>\<open>np.log10(abs(v)) < -3\<close>: the logarithm of zero is minus infinity.\<close>

definition log10_abs_lt_m3 :: "fval \<Rightarrow> bool" where
  "log10_abs_lt_m3 v = (case v of Finite x \<Rightarrow> \<bar>x\<bar> < 1 / 1000 | _ \<Rightarrow> False)"

definition get_degrees :: "fval \<Rightarrow> fval" where
  "get_degrees v = (case v of Finite x \<Rightarrow> Finite (x * 180 / np_pi) | _ \<Rightarrow> v)"

text \<open>
  \<open>get_gps_stamp\<close>. The result is \<open>None\<close> when a loop does not end. Otherwise it is an
  exception that is not caught, or the pair returned: the stamp (\<open>None\<close> after the
  handler of ValueError, which prints that the stamp is not complete) and the index.
\<close>

definition get_gps_stamp :: "string \<Rightarrow> int \<Rightarrow> (error + stamp list option \<times> int) option" where
  "get_gps_stamp raw_data gps_index =
     map_option
       (\<lambda>r. case r of
           Inl (e, g) \<Rightarrow> if e = ValueError then Inr (None, g) else Inl e
         | Inr (gps_info, g) \<Rightarrow>
             Inr (Some (map (\<lambda>s. s\<lparr>lat := get_degrees (lat s), lon := get_degrees (lon s)\<rparr>)
                          gps_info), g))
       (Option.bind (Option.bind (Option.bind (Option.bind
          (then_rescan (\<lambda>s. time s < 0) raw_data
             (case read_stamp raw_data gps_index of
                Inl e \<Rightarrow> Inl (e, gps_index) | Inr info \<Rightarrow> Inr (info, gps_index)))
          (then_rescan (\<lambda>s. status s < 0) raw_data))
          (then_rescan (\<lambda>s. fabs_gt (temperature s) 80) raw_data))
          (then_rescan (\<lambda>s. fabs_gt (lat s) np_pi) raw_data))
          (then_rescan (\<lambda>s. log10_abs_lt_m3 (lat s)) raw_data))"

section \<open>Zen3D.read\_3d: the first stamp\<close>

text \<open>
  The seconds of the GPS epoch, 1980-01-06 00:00:00 UTC, that
  \<open>time.mktime(self._gps_epoch) - time.timezone\<close> computes, and the leap seconds of
  the constructor.
\<close>

definition gps_epoch_seconds :: int where
  "gps_epoch_seconds = 315964800"

definition leap_seconds :: int where
  "leap_seconds = 16"

text \<open>
  \<open>get_date_time\<close> on the array \<open>gps_info['time']\<close>. The calendar functions of the
  library, \<open>time.gmtime\<close> followed by \<open>time.strftime\<close> with the format
  \<open>%Y-%m-%d,%H:%M:%S\<close>, are the parameter \<open>utc_text\<close>, from the seconds since 1970
  to the text. Only an array of one element converts to the number \<open>gmtime\<close> takes.
\<close>

definition get_date_time :: "(int \<Rightarrow> error + string) \<Rightarrow> int \<Rightarrow> int list \<Rightarrow> error + string" where
  "get_date_time utc_text week gps_times =
     (case gps_times of
        [t] \<Rightarrow> utc_text (gps_epoch_seconds + week * week_len + t - leap_seconds)
      | _ \<Rightarrow> Inl TypeError)"

text \<open>\<open>'{0:02}'.format(n)\<close>\<close>

definition format_02 :: "int \<Rightarrow> string" where
  "format_02 n = (if 0 \<le> n \<and> n < 10 then CHR ''0'' # str_int n else str_int n)"

text \<open>
  The marker from \<open>start_index\<close> on, its stamp and the text of its time: the
  statements before the loop, and the first five of its body.
\<close>

definition probe ::
  "(int \<Rightarrow> error + string) \<Rightarrow> string \<Rightarrow> int \<Rightarrow> int option
     \<Rightarrow> error + int \<times> stamp list \<times> string" where
  "probe utc_text raw_data week start_index =
     (case get_gps_stamp_location raw_data start_index of
        Inl e \<Rightarrow> Inl e
      | Inr g \<Rightarrow>
          (case np_fromstring_stamp (py_slice raw_data g (g + stamp_len)) of
             Inl e \<Rightarrow> Inl e
           | Inr info0 \<Rightarrow>
               (case convert_time info0 of
                  Inl e \<Rightarrow> Inl e
                | Inr info \<Rightarrow>
                    (case get_date_time utc_text week (map time info) of
                       Inl e \<Rightarrow> Inl e
                     | Inr test \<Rightarrow> Inr (g, info, test)))))"

text \<open>The variables of the loop; \<open>gps0\<close> is \<open>gps_lst[0]\<close>.\<close>

record start_state =
  s1 :: int
  gps0 :: int
  gps_info :: "stamp list"
  start_test :: string
  start_dt :: string
  time_stop :: int

text \<open>
  The loop that looks for the stamp of the scheduled start; \<open>sd\<close> is
  \<open>self._seconds_diff\<close>, 5 unless the caller changes it.
\<close>

function start_loop ::
  "int \<Rightarrow> (int \<Rightarrow> error + string) \<Rightarrow> string \<Rightarrow> int \<Rightarrow> start_state \<Rightarrow> error + start_state" where
  "start_loop sd utc_text raw_data week st =
     (if start_test st \<noteq> start_dt st \<and> s1 st \<le> sd \<and> time_stop st \<le> sd then
        (case probe utc_text raw_data week (Some (gps0 st + 7)) of
           Inl e \<Rightarrow> Inl e
         | Inr (g, info, test) \<Rightarrow>
             if s1 st + 1 = sd then
               (case py_int_of_str (py_slice_from (start_dt st) (- 2)) of
                  Inl e \<Rightarrow> Inl e
                | Inr sec \<Rightarrow>
                    (case get_gps_stamp_location raw_data None of
                       Inl e \<Rightarrow> Inl e
                     | Inr g0 \<Rightarrow>
                         start_loop sd utc_text raw_data week
                           \<lparr>s1 = 0, gps0 = g0, gps_info = info, start_test = test,
                            start_dt = py_slice_to (start_dt st) (- 2) @ format_02 (sec + 1),
                            time_stop = time_stop st + 1\<rparr>))
             else
               start_loop sd utc_text raw_data week
                 \<lparr>s1 = s1 st + 1, gps0 = g, gps_info = info, start_test = test,
                  start_dt = start_dt st, time_stop = time_stop st\<rparr>)
      else Inr st)"
  by pat_completeness auto
termination
  by (relation "measures [\<lambda>(sd, utc_text, raw_data, week, st). nat (sd + 1 - time_stop st),
                          \<lambda>(sd, utc_text, raw_data, week, st). nat (sd + 2 - s1 st)]") auto

definition gps_error_text :: "int \<Rightarrow> string \<Rightarrow> string \<Rightarrow> string" where
  "gps_error_text sd dt test =
     ''GPS start time is more than '' @ str_int sd @ '' ''
     @ ''seconds different than scheduled start time of '' @ dt @ ''. '' @ [CHR 0x0A] @ '' ''
     @ ''Estimated start time is '' @ test @ '' +/- '' @ str_int sd @ '' sec''"

text \<open>
  Lines 272 to 309 of \<open>read_3d\<close>: the first stamp, the loop, and the test that
  raises \<open>ZenGPSError\<close>. \<open>start_dt0\<close> is the scheduled start that
  \<open>compute_schedule_start\<close> has returned.
\<close>

definition read_start ::
  "int \<Rightarrow> (int \<Rightarrow> error + string) \<Rightarrow> string \<Rightarrow> int \<Rightarrow> string \<Rightarrow> error + start_state" where
  "read_start sd utc_text raw_data week start_dt0 =
     (case probe utc_text raw_data week None of
        Inl e \<Rightarrow> Inl e
      | Inr (g, info, test) \<Rightarrow>
          (case start_loop sd utc_text raw_data week
                  \<lparr>s1 = 0, gps0 = g, gps_info = info, start_test = test,
                   start_dt = start_dt0, time_stop = 0\<rparr> of
             Inl e \<Rightarrow> Inl e
           | Inr st \<Rightarrow>
               if time_stop st \<ge> sd
               then Inl (ZenGPSError (gps_error_text sd (start_dt st) (start_test st)))
               else Inr st))"

text \<open>A stamp for concrete runs: the marker, the counter \<open>t\<close> of the time, and 28
  bytes of zeros for the other cells.\<close>

definition stamp_bytes :: "int \<Rightarrow> string" where
  "stamp_bytes t = gps_stamp @ int32_bytes t @ replicate 28 (CHR 0x00)"

declare start_loop.simps [simp del]

text \<open>Two stamps, one second apart, for concrete runs of the search for the first stamp.\<close>

definition raw2 :: string where
  "raw2 = stamp_bytes 102400 @ stamp_bytes 103424"

section \<open>Zen3D.read\_3d: the samples\<close>

definition counts_to_mv_conversion :: real where
  "counts_to_mv_conversion = 95367431640625 / 10 ^ 23"

text \<open>\<open>a[np.nonzero(a)]\<close>: the cells of \<open>a\<close> that are not zero, in their order.\<close>

definition np_nonzero :: "real list \<Rightarrow> real list" where
  "np_nonzero a = filter (\<lambda>x. x \<noteq> 0) a"

text \<open>
  \<open>a[i:j] = vals\<close> for arrays of one dimension: the values must be as many as the
  cells of the slice, or one value, which is copied to every cell; otherwise ValueError
  is raised.
\<close>

definition assign_slice :: "real list \<Rightarrow> int \<Rightarrow> int \<Rightarrow> real list \<Rightarrow> error + real list" where
  "assign_slice a i j vals =
     (let lo = slice_bound i (length a); hi = slice_bound j (length a); n = hi - lo
      in if length vals = n then Inr (take lo a @ vals @ drop (lo + n) a)
         else if length vals = 1 then Inr (take lo a @ replicate n (hd vals) @ drop (lo + n) a)
         else Inl ValueError)"

text \<open>
  The loop that copies the samples between two stamps into \<open>data_array\<close>, over the
  triples of the index \<open>ll\<close>, the stamp \<open>kk\<close> and the next stamp \<open>gps_lst[ll+1]\<close>.
  The cells are 32-bit floats. The handler of ValueError calls \<open>get_gps_stamp\<close> for
  its printed output only; an exception of that call is not caught, and the call may
  not return.
\<close>

fun fill_data ::
  "string \<Rightarrow> int \<Rightarrow> (nat \<times> int \<times> int) list \<Rightarrow> real list \<Rightarrow> (error + real list) option" where
  "fill_data raw_data df_int [] data_array = Some (Inr data_array)"
| "fill_data raw_data df_int ((ll, kk, nxt) # rest) data_array =
     (let pdiff = ((nxt - (kk + stamp_len)) - df_int * 4) div 4 in
      case (case np_fromstring_int32 (py_slice raw_data (kk + stamp_len) nxt) of
              Inl e \<Rightarrow> Inl e
            | Inr w \<Rightarrow> assign_slice data_array (int ll * df_int) ((int ll + 1) * df_int + pdiff)
                        (map (\<lambda>x. real_of_int (round_f32 x)) w)) of
        Inr a \<Rightarrow> fill_data raw_data df_int rest a
      | Inl e \<Rightarrow>
          if e = ValueError then
            (case get_gps_stamp raw_data kk of
               None \<Rightarrow> None
             | Some (Inl e') \<Rightarrow> Some (Inl e')
             | Some (Inr r) \<Rightarrow> fill_data raw_data df_int rest data_array)
          else Some (Inl e))"

text \<open>
  Lines 376 to 411 of \<open>read_3d\<close>: from the offsets \<open>stamps\<close> (the array \<open>gps_lst\<close>) of the stamps that are
  kept and the samples per second \<open>df_int\<close> (the local \<open>df\<close>) to \<open>time_series\<close>.
\<close>

definition read_data :: "string \<Rightarrow> int \<Rightarrow> int list \<Rightarrow> (error + real list) option" where
  "read_data raw_data df_int stamps =
     (let num_samples = length stamps in
      if (int num_samples + 1) * df_int < 0 then Some (Inl ValueError)
      else
        (case fill_data raw_data df_int
                (zip [0..<length stamps - 1] (zip (butlast stamps) (tl stamps)))
                (replicate (nat ((int num_samples + 1) * df_int)) 0) of
           None \<Rightarrow> None
         | Some (Inl e) \<Rightarrow> Some (Inl e)
         | Some (Inr data_array) \<Rightarrow>
             Some (Inr (map (\<lambda>x. x * counts_to_mv_conversion) (np_nonzero data_array)))))"

text \<open>The sample words between every stamp and the next one, one after another.\<close>

definition block_words :: "string \<Rightarrow> int list \<Rightarrow> int list" where
  "block_words raw_data stamps =
     concat (map (\<lambda>(kk, nxt). int32_words (py_slice raw_data (kk + stamp_len) nxt))
               (zip (butlast stamps) (tl stamps)))"

text \<open>The number of cells of an array that are not zero, and the sample words of a list
  of blocks, for the statements about \<open>read_data\<close>.\<close>

definition nz :: "real list \<Rightarrow> nat" where
  "nz a = length (filter (\<lambda>x. x \<noteq> 0) a)"

definition words_of :: "string \<Rightarrow> (nat \<times> int \<times> int) list \<Rightarrow> int list" where
  "words_of raw_data bl =
     concat (map (\<lambda>(ll, kk, nxt). int32_words (py_slice raw_data (kk + stamp_len) nxt)) bl)"

text \<open>Two stamps with three sample words between them, the second word zero.\<close>

definition raw3 :: string where
  "raw3 = stamp_bytes 102400 @ (int32_bytes 5 @ int32_bytes 0 @ int32_bytes 7)
          @ stamp_bytes 103424"

section \<open>Basic facts about the Python operations\<close>

lemma py_index_nat: "i < length xs \<Longrightarrow> py_index xs (int i) = Inr (xs ! i)"
  by (simp add: py_index_def)

section \<open>The time base\<close>

text \<open>
  C3 (as stated, refuted): at a counter exactly on the week boundary
  (\<open>counter / 1024 = 604800\<close>) the week is not incremented and the returned time is
  604800, not zero: the comparison of the method is strict.
\<close>

theorem get_gps_time_boundary_counterexample:
  "\<not> (gps_week (get_gps_time_locals (604800 * 1024) 0) = 1
      \<and> get_gps_time (604800 * 1024) 0 = 0)"
  by (simp add: get_gps_time_def get_gps_time_locals_def week_len_def)

text \<open>
  C3 (amended): whenever the counter's seconds of the week strictly exceed 604800, the
  week is incremented, one week length is subtracted from the seconds, and the returned
  time is the whole part of the reduced seconds plus the sub-second part plus the
  incremented week number times the week length; when the seconds do not exceed 604800
  (the boundary included) the week and the seconds are left as they are and the
  returned time is the whole seconds plus the sub-second part.
\<close>

theorem get_gps_time_rollover:
  "(real_of_int gps_int / 1024 > 604800 \<longrightarrow>
      gps_week (get_gps_time_locals gps_int week) = week + 1
    \<and> gps_seconds (get_gps_time_locals gps_int week) = real_of_int gps_int / 1024 - 604800
    \<and> get_gps_time gps_int week =
        of_int \<lfloor>real_of_int gps_int / 1024 - 604800\<rfloor>
        + gps_ms (get_gps_time_locals gps_int week) + of_int ((week + 1) * 604800))
   \<and> (real_of_int gps_int / 1024 \<le> 604800 \<longrightarrow>
      gps_week (get_gps_time_locals gps_int week) = week
    \<and> gps_seconds (get_gps_time_locals gps_int week) = real_of_int gps_int / 1024
    \<and> get_gps_time gps_int week =
        of_int \<lfloor>real_of_int gps_int / 1024\<rfloor>
        + gps_ms (get_gps_time_locals gps_int week))"
  by (simp add: get_gps_time_def get_gps_time_locals_def week_len_def Let_def)

theorem get_gps_time_rollover_witness:
  "real_of_int (604801 * 1024) / 1024 > 604800
   \<and> gps_week (get_gps_time_locals (604801 * 1024) 7) = 8
   \<and> gps_seconds (get_gps_time_locals (604801 * 1024) 7) = 1
   \<and> get_gps_time (604801 * 1024) 7 = 4838401
   \<and> real_of_int (604800 * 1024) / 1024 \<le> 604800
   \<and> gps_week (get_gps_time_locals (604800 * 1024) 7) = 7
   \<and> get_gps_time (604800 * 1024) 7 = 604800"
  using get_gps_time_rollover [of "604801 * 1024" 7]
        get_gps_time_rollover [of "604800 * 1024" 7]
  by (simp add: get_gps_time_locals_def week_len_def)

section \<open>The marker scanner\<close>

text \<open>
  C6 (as stated, refuted): with the marker at the same place, followed by one extra
  sentinel byte in one buffer and by two in another, the scanner returns two different
  offsets (3 and 4), neither of them the place where the marker was put (2).
\<close>

theorem get_gps_stamp_location_offset_counterexample:
  "get_gps_stamp_location (''ab'' @ gps_stamp @ [CHR 0xFF] @ ''xyz'') None = Inr 3
   \<and> get_gps_stamp_location (''ab'' @ gps_stamp @ [CHR 0xFF, CHR 0xFF] @ ''xyz'') None = Inr 4"
  by (simp add: get_gps_stamp_location_def gps_stamp_def py_find_def py_index_def)

text \<open>
  C6 (amended): when the search finds the marker pattern at offset \<open>p\<close>, the pattern is
  followed by \<open>k\<close> further sentinel bytes (\<open>1 \<le> k \<le> 4\<close>) and then by a byte that is
  not the sentinel, the scanner returns \<open>p + k\<close>: the offset of the last four sentinel
  bytes of the run, four bytes before the first byte that is not the sentinel, whatever
  \<open>k\<close> is.
\<close>

theorem get_gps_stamp_location_extra_sentinels:
  assumes found: "py_find raw_data gps_stamp start_index = int p"
    and k: "1 \<le> k" "k \<le> 4"
    and extra: "\<forall>i<k. raw_data ! (p + 4 + i) = CHR 0xFF"
    and data: "p + 4 + k < length raw_data" "raw_data ! (p + 4 + k) \<noteq> CHR 0xFF"
  shows "get_gps_stamp_location raw_data start_index = Inr (int (p + k))"
proof -
  have idx: "py_index raw_data (int p + 4 + int i) = Inr (raw_data ! (p + 4 + i))"
    if "i \<le> k" for i
  proof -
    have "p + 4 + i < length raw_data" using that data(1) by simp
    from py_index_nat [OF this] show ?thesis by (simp add: add.assoc)
  qed
  have ff: "raw_data ! (p + 4 + i) = CHR 0xFF" if "i < k" for i
    using extra that by simp
  consider "k = 1" | "k = 2" | "k = 3" | "k = 4" using k by linarith
  then show ?thesis
  proof cases
    case 1
    with idx [of 0] idx [of 1] ff [of 0] data(2) found show ?thesis
      by (simp add: get_gps_stamp_location_def Let_def)
  next
    case 2
    with idx [of 0] idx [of 1] idx [of 2] ff [of 0] ff [of 1] data(2) found show ?thesis
      by (simp add: get_gps_stamp_location_def Let_def)
  next
    case 3
    with idx [of 0] idx [of 1] idx [of 2] idx [of 3] ff [of 0] ff [of 1] ff [of 2]
      data(2) found show ?thesis
      by (simp add: get_gps_stamp_location_def Let_def)
  next
    case 4
    with idx [of 0] idx [of 1] idx [of 2] idx [of 3] ff [of 0] ff [of 1] ff [of 2]
      ff [of 3] found show ?thesis
      by (simp add: get_gps_stamp_location_def Let_def)
  qed
qed

theorem get_gps_stamp_location_extra_sentinels_witness:
  "get_gps_stamp_location
     (''ab'' @ gps_stamp @ [CHR 0xFF, CHR 0xFF, CHR 0xFF] @ ''xyz'') (Some 1) = Inr 5"
  using get_gps_stamp_location_extra_sentinels
    [of "''ab'' @ gps_stamp @ [CHR 0xFF, CHR 0xFF, CHR 0xFF] @ ''xyz''" "Some 1" 2 3]
  by (simp add: gps_stamp_def py_find_def less_Suc_eq numeral_3_eq_3)

section \<open>The channel aligner\<close>

lemmas aligner_defs = check_time_series_def start_second_def py_index_def py_slice_from_def
  slice_bound_def py_int_of_str_def py_strip_def is_space_def is_digit_def digits_value_def
  skip_dict_def skip_channel_def trim_channels_def ts_array_of_def py_slice_to_def

lemma start_5: "start_second channel_5 = Inr 5" by (simp add: aligner_defs channel_5_def)
lemma start_3: "start_second channel_3 = Inr 3" by (simp add: aligner_defs channel_3_def)

lemma skip_dict_533: "skip_dict [5, 3, 3] = [0, 2, 2]"
  by (simp add: skip_dict_def)

text \<open>Every run that has to skip data of some channel ends in the TypeError of the last
  assignment of the skip branch.\<close>

lemma skip_channels_type_error:
  assumes "length skips = length zts" "\<exists>skip \<in> set skips. skip \<noteq> 0"
  shows "snd (skip_channels zts skips) = Some TypeError"
  using assms
proof (induction zts skips rule: skip_channels.induct)
  case (1 zt zts skip skips)
  show ?case
  proof (cases "skip = 0")
    case True
    then have "snd (skip_channels zts skips) = Some TypeError"
      using "1.prems" by (intro "1.IH") (auto simp: skip_channel_def)
    then show ?thesis using True by (auto simp: skip_channel_def split: prod.splits)
  next
    case False
    then show ?thesis by (simp add: skip_channel_def)
  qed
qed auto

text \<open>
  C5 (a defect of the code): three channels at the same sampling rate whose first
  stamps have the seconds fields 5, 3, 3. The aligner computes the seconds to skip, 0, 2
  and 2, and cuts the leading data of the second channel by the statements of lines 986
  to 989; the next statement, line 990, subscripts the dictionary \<open>skip_dict\<close> with
  the slice \<open>ii:\<close> where lines 987 to 989 slice with \<open>skip_dict[ii]:\<close>, and
  raises TypeError. No channel is trimmed to the shortest length and no matrix is
  returned.
\<close>

theorem check_time_series_staggered_type_error:
  "skip_dict [5, 3, 3] = [0, 2, 2]
   \<and> fst (check_time_series [channel_5, channel_3, channel_3]) = Inl TypeError"
  by (simp add: check_time_series_def start_5 start_3 skip_dict_def skip_channel_def)

section \<open>Encoding and decoding of integers\<close>

lemma bind_err_Inr [simp]: "bind_err (Inr x) f = f x"
  by (simp add: bind_err_def)

lemma bind_err_Inl [simp]: "bind_err (Inl e) f = Inl e"
  by (simp add: bind_err_def)

lemma bind_err_eq_Inr: "bind_err m f = Inr y \<longleftrightarrow> (\<exists>x. m = Inr x \<and> f x = Inr y)"
  by (cases m) auto

lemma le32_sum: "(n::int) mod 256 + 256 * (n div 256 mod 256) + 65536 * (n div 65536 mod 256)
    + 16777216 * (n div 16777216 mod 256) = n mod 4294967296"
proof -
  have a: "n mod 4294967296 = 16777216 * (n div 16777216 mod 256) + n mod 16777216"
    using zmod_zmult2_eq [of 256 n 16777216] by simp
  have b: "n mod 16777216 = 65536 * (n div 65536 mod 256) + n mod 65536"
    using zmod_zmult2_eq [of 256 n 65536] by simp
  have c: "n mod 65536 = 256 * (n div 256 mod 256) + n mod 256"
    using zmod_zmult2_eq [of 256 n 256] by simp
  show ?thesis using a b c by linarith
qed

lemma wrap_int32_mod: "wrap_int32 (n mod 4294967296) = wrap_int32 n"
  by (simp add: wrap_int32_def mod_add_left_eq)

lemma wrap_int32_id: "in_int32 n \<Longrightarrow> wrap_int32 n = n"
  by (simp add: wrap_int32_def in_int32_def)

lemma in_int32_wrap: "in_int32 (wrap_int32 n)"
  by (simp add: wrap_int32_def in_int32_def) 

lemma length_int32_bytes [simp]: "length (int32_bytes n) = 4"
  by (simp add: int32_bytes_def)

lemma length_int16_bytes [simp]: "length (int16_bytes n) = 2"
  by (simp add: int16_bytes_def)

lemma int32_words_bytes: "int32_words (int32_bytes n @ rest) = wrap_int32 n # int32_words rest"
  by (simp add: int32_bytes_def int32_of4_def le32_sum wrap_int32_mod)

lemma int32_words_bytes_single: "int32_words (int32_bytes n) = [wrap_int32 n]"
  using int32_words_bytes [of n "[]"] by simp

lemma of_char_int_range: "0 \<le> (of_char a :: int) \<and> (of_char a :: int) < 256"
proof -
  have "(of_char a :: int) = int (of_char a)" by (simp add: of_char_def)
  moreover have "(of_char a :: nat) < 256" by simp
  ultimately show ?thesis by simp
qed

lemma wrap_int32_cases:
  assumes "0 \<le> u" "u < 4294967296"
  shows "wrap_int32 u = u \<or> wrap_int32 u = u - 4294967296"
proof (cases "u < 2147483648")
  case True
  then have "(u + 2147483648) mod 4294967296 = u + 2147483648"
    using assms by (intro mod_pos_pos_trivial) simp_all
  then show ?thesis by (simp add: wrap_int32_def)
next
  case False
  then have "(u + 2147483648 - 4294967296) mod 4294967296 = u + 2147483648 - 4294967296"
    using assms by (intro mod_pos_pos_trivial) simp_all
  moreover have "(u + 2147483648 - 4294967296) mod 4294967296 = (u + 2147483648) mod 4294967296"
    by (rule minus_mod_self2)
  ultimately show ?thesis by (simp add: wrap_int32_def)
qed

lemma bytes_of_sum:
  fixes A B C D :: int
  assumes "0 \<le> A" "A < 256" "0 \<le> B" "B < 256" "0 \<le> C" "C < 256" "0 \<le> D" "D < 256"
  shows "wrap_int32 (A + 256 * B + 65536 * C + 16777216 * D) mod 256 = A"
    "wrap_int32 (A + 256 * B + 65536 * C + 16777216 * D) div 256 mod 256 = B"
    "wrap_int32 (A + 256 * B + 65536 * C + 16777216 * D) div 65536 mod 256 = C"
    "wrap_int32 (A + 256 * B + 65536 * C + 16777216 * D) div 16777216 mod 256 = D"
proof -
  define u where "u = A + 256 * B + 65536 * C + 16777216 * D"
  have "0 \<le> u" "u < 4294967296" using assms by (simp_all add: u_def)
  then have w: "wrap_int32 u = u \<or> wrap_int32 u = u - 4294967296"
    by (rule wrap_int32_cases)
  have s1: "(u - 4294967296) mod 256 = u mod 256"
    using mod_mult_self2 [of u 256 "-16777216"] by simp
  have d1: "(u - 4294967296) div 256 = u div 256 - 16777216"
    using div_mult_self2 [of 256 u "-16777216"] by simp
  have s2: "(u div 256 - 16777216) mod 256 = u div 256 mod 256"
    using mod_mult_self2 [of "u div 256" 256 "-65536"] by simp
  have d2: "(u - 4294967296) div 65536 = u div 65536 - 65536"
    using div_mult_self2 [of 65536 u "-65536"] by simp
  have s3: "(u div 65536 - 65536) mod 256 = u div 65536 mod 256"
    using mod_mult_self2 [of "u div 65536" 256 "-256"] by simp
  have d3: "(u - 4294967296) div 16777216 = u div 16777216 - 256"
    using div_mult_self2 [of 16777216 u "-256"] by simp
  have s4: "(u div 16777216 - 256) mod 256 = u div 16777216 mod 256"
    using mod_mult_self2 [of "u div 16777216" 256 "-1"] by simp
  have m1: "wrap_int32 u mod 256 = u mod 256"
    using w s1 by (elim disjE) (simp_all only:)
  have m2: "wrap_int32 u div 256 mod 256 = u div 256 mod 256"
    using w d1 s2 by (elim disjE) (simp_all only:)
  have m3: "wrap_int32 u div 65536 mod 256 = u div 65536 mod 256"
    using w d2 s3 by (elim disjE) (simp_all only:)
  have m4: "wrap_int32 u div 16777216 mod 256 = u div 16777216 mod 256"
    using w d3 s4 by (elim disjE) (simp_all only:)
  have e1: "u = A + 256 * (B + 256 * C + 65536 * D)" by (simp add: u_def)
  have e2: "u = (A + 256 * B) + 65536 * (C + 256 * D)" by (simp add: u_def)
  have e3: "u = (A + 256 * B + 65536 * C) + 16777216 * D" by (simp add: u_def)
  have a0: "A mod 256 = A" "A div 256 = 0"
    using assms by (simp_all add: mod_pos_pos_trivial div_pos_pos_trivial)
  have "u mod 256 = A mod 256" unfolding e1 by (rule mod_mult_self2)
  then have q1: "u mod 256 = A" using a0 by simp
  have "u div 256 = (B + 256 * C + 65536 * D) + A div 256"
    unfolding e1 by (rule div_mult_self2) simp
  then have q2: "u div 256 = B + 256 * C + 65536 * D" using a0 by simp
  have "(A + 256 * B) div 65536 = 0" using assms by (intro div_pos_pos_trivial) simp_all
  moreover have "u div 65536 = (C + 256 * D) + (A + 256 * B) div 65536"
    unfolding e2 by (rule div_mult_self2) simp
  ultimately have q3: "u div 65536 = C + 256 * D" by simp
  have "(A + 256 * B + 65536 * C) div 16777216 = 0"
    using assms by (intro div_pos_pos_trivial) simp_all
  moreover have "u div 16777216 = D + (A + 256 * B + 65536 * C) div 16777216"
    unfolding e3 by (rule div_mult_self2) simp
  ultimately have q4: "u div 16777216 = D" by simp
  have b0: "B mod 256 = B" "C mod 256 = C"
    using assms by (simp_all add: mod_pos_pos_trivial)
  have eq1: "B + 256 * C + 65536 * D = B + 256 * (C + 256 * D)" by simp
  have "(B + 256 * (C + 256 * D)) mod 256 = B mod 256" by (rule mod_mult_self2)
  then have r2: "(B + 256 * C + 65536 * D) mod 256 = B" by (simp only: eq1 b0)
  have "(C + 256 * D) mod 256 = C mod 256" by (rule mod_mult_self2)
  then have r3: "(C + 256 * D) mod 256 = C" by (simp only: b0)
  have r4: "D mod 256 = D" using assms by (simp add: mod_pos_pos_trivial)
  show "wrap_int32 (A + 256 * B + 65536 * C + 16777216 * D) mod 256 = A"
    using m1 q1 unfolding u_def by (simp only:)
  show "wrap_int32 (A + 256 * B + 65536 * C + 16777216 * D) div 256 mod 256 = B"
    using m2 q2 r2 unfolding u_def by (simp only:)
  show "wrap_int32 (A + 256 * B + 65536 * C + 16777216 * D) div 65536 mod 256 = C"
    using m3 q3 r3 unfolding u_def by (simp only:)
  show "wrap_int32 (A + 256 * B + 65536 * C + 16777216 * D) div 16777216 mod 256 = D"
    using m4 q4 r4 unfolding u_def by (simp only:)
qed

lemma int32_bytes_of4: "int32_bytes (int32_of4 a b c d) = [a, b, c, d]"
proof -
  note r = of_char_int_range [of a] of_char_int_range [of b] of_char_int_range [of c]
    of_char_int_range [of d]
  have b: "wrap_int32 (of_char a + 256 * of_char b + 65536 * of_char c + 16777216 * of_char d)
             mod 256 = of_char a"
    "wrap_int32 (of_char a + 256 * of_char b + 65536 * of_char c + 16777216 * of_char d)
             div 256 mod 256 = of_char b"
    "wrap_int32 (of_char a + 256 * of_char b + 65536 * of_char c + 16777216 * of_char d)
             div 65536 mod 256 = of_char c"
    "wrap_int32 (of_char a + 256 * of_char b + 65536 * of_char c + 16777216 * of_char d)
             div 16777216 mod 256 = of_char d"
    using r by (simp_all only: bytes_of_sum)
  show ?thesis
    unfolding int32_bytes_def int32_of4_def by (simp only: b char_of_char)
qed

lemma int32_of4_inject:
  "int32_of4 a b c d = int32_of4 a' b' c' d' \<longleftrightarrow> [a, b, c, d] = [a', b', c', d']"
proof
  assume "int32_of4 a b c d = int32_of4 a' b' c' d'"
  then have "int32_bytes (int32_of4 a b c d) = int32_bytes (int32_of4 a' b' c' d')" by simp
  then show "[a, b, c, d] = [a', b', c', d']" by (simp only: int32_bytes_of4)
qed simp


lemma wrap_int32_sub_left: "wrap_int32 (wrap_int32 x - y) = wrap_int32 (x - y)"
proof -
  have "(wrap_int32 x - y + 2147483648) mod 4294967296 = (x - y + 2147483648) mod 4294967296"
  proof -
    have "wrap_int32 x - y + 2147483648 = (x + 2147483648) mod 4294967296 + (- y)"
      by (simp add: wrap_int32_def)
    moreover have "((x + 2147483648) mod 4294967296 + (- y)) mod 4294967296
        = ((x + 2147483648) + (- y)) mod 4294967296"
      by (rule mod_add_left_eq)
    moreover have "(x + 2147483648) + (- y) = x - y + 2147483648" by simp
    ultimately show ?thesis by (simp only:)
  qed
  then show ?thesis by (simp only: wrap_int32_def)
qed

lemma frame_end_single:
  assumes "in_int32 ii" "in_int32 (ii + l - 2)"
  shows "frame_end ii [l] = [ii + l - 2]"
  using assms by (simp add: frame_end_def wrap_int32_sub_left wrap_int32_id)

lemma py_slice_mid:
  assumes "i = int (length a)" "j = i + int (length b)"
  shows "py_slice (a @ b @ c) i j = b"
  using assms by (simp add: py_slice_def slice_bound_def)

lemma list4: "length h = 4 \<Longrightarrow> \<exists>a b c d. h = [a, b, c, d]"
  by (simp add: length_Suc_conv numeral_eq_Suc) blast

lemma list6: "length g = 6 \<Longrightarrow> \<exists>a b c d e f. g = [a, b, c, d, e, f]"
  by (simp add: length_Suc_conv numeral_eq_Suc) blast

lemma block_records_stamp:
  assumes "length h = 4" "length g = 6"
  shows "map len (block_records (h @ g)) = int32_words h"
proof -
  from list4 [OF assms(1)] obtain a b c d where h: "h = [a, b, c, d]" by blast
  from list6 [OF assms(2)] obtain e f i j k l where g: "g = [e, f, i, j, k, l]" by blast
  show ?thesis by (simp add: h g)
qed

lemma np_fromstring_block_stamp:
  assumes "length h = 4" "length g = 6"
  shows "np_fromstring_block (h @ g) = Inr (block_records (h @ g))"
  using assms by (simp add: np_fromstring_block_def)

lemma block_at_frame:
  assumes h: "length h = 4" and g: "length g = 6" and l: "int32_words h = [l]"
    and p: "p = int (length pre)" and r: "in_int32 (p + 10)" "in_int32 (p + 8 + l)"
  shows "block_at (pre @ h @ g @ rest) p = Inr ([l], p + 10, p + 8 + l)"
proof -
  have "py_slice (pre @ (h @ g) @ rest) p (p + 10) = h @ g"
    using h g p by (intro py_slice_mid) simp_all
  then have s: "py_slice (pre @ h @ g @ rest) p (p + cache_stamp_len) = h @ g"
    by (simp add: cache_stamp_len_def)
  have f: "frame_end (p + 10) [l] = [p + 10 + l - 2]"
  proof (rule frame_end_single)
    show "in_int32 (p + 10)" by (rule r)
    have "p + 10 + l - 2 = p + 8 + l" by simp
    then show "in_int32 (p + 10 + l - 2)" using r(2) by (simp only:)
  qed
  show ?thesis
    unfolding block_at_def s
    by (simp add: np_fromstring_block_stamp [OF h g] block_records_stamp [OF h g] l
        cache_stamp_len_def f array_index_def)
qed

lemma int32_words_4: "length e = 4 \<Longrightarrow> \<exists>x. int32_words e = [x]"
  using list4 [of e] by auto

lemma length_check_frame:
  assumes e: "length e = 4" and jj: "jj = int (length pre)"
  shows "length_check (pre @ e @ rest) jj [l]
         = (if int32_words e = [l] then Inr () else Inl IOError)"
proof -
  have s: "py_slice (pre @ e @ rest) jj (jj + 4) = e"
    using e jj by (intro py_slice_mid) simp_all
  from int32_words_4 [OF e] obtain x where x: "int32_words e = [x]" by blast
  show ?thesis
    unfolding length_check_def s
    by (simp add: np_fromstring_int32_def e x np_not_equal_def)
qed

lemma int32_words_eq_iff:
  assumes "length e = 4" "length h = 4"
  shows "int32_words e = int32_words h \<longleftrightarrow> e = h"
proof -
  from list4 [OF assms(1)] obtain a b c d where e: "e = [a, b, c, d]" by blast
  from list4 [OF assms(2)] obtain a' b' c' d' where h: "h = [a', b', c', d']" by blast
  show ?thesis by (simp add: e h int32_of4_inject)
qed


lemma length_frame: "framed h g payload e \<Longrightarrow> length (frame h g payload e) = 14 + length payload"
  by (simp add: framed_def frame_def)

lemma frame_step:
  assumes f: "framed h g payload e"
    and cd: "cdata = pre @ frame h g payload e @ rest"
    and sz: "int (length pre) + 10 + int (length payload) \<le> 2147483647"
  shows "block_at cdata (int (length pre))
         = Inr ([int (length payload) + 2], int (length pre) + 10,
                int (length pre) + 10 + int (length payload))"
    and "py_slice cdata (int (length pre) + 10) (int (length pre) + 10 + int (length payload))
         = payload"
    and "length_check cdata (int (length pre) + 10 + int (length payload))
           [int (length payload) + 2]
         = (if e = h then Inr () else Inl IOError)"
proof -
  from f have h: "length h = 4" and g: "length g = 6" and e: "length e = 4"
    and l: "int32_words h = [int (length payload) + 2]"
    by (simp_all add: framed_def)
  have c1: "cdata = pre @ h @ g @ (payload @ e @ rest)"
    by (simp add: cd frame_def)
  have "block_at (pre @ h @ g @ (payload @ e @ rest)) (int (length pre))
        = Inr ([int (length payload) + 2], int (length pre) + 10,
               int (length pre) + 8 + (int (length payload) + 2))"
    using sz by (intro block_at_frame [OF h g l]) (simp_all add: in_int32_def)
  then show "block_at cdata (int (length pre))
         = Inr ([int (length payload) + 2], int (length pre) + 10,
                int (length pre) + 10 + int (length payload))"
    by (simp add: c1)
  have c2: "cdata = (pre @ h @ g) @ payload @ (e @ rest)"
    by (simp add: cd frame_def)
  show "py_slice cdata (int (length pre) + 10) (int (length pre) + 10 + int (length payload))
         = payload"
    unfolding c2 using h g by (intro py_slice_mid) simp_all
  have c3: "cdata = (pre @ h @ g @ payload) @ e @ rest"
    by (simp add: cd frame_def)
  have "length_check ((pre @ h @ g @ payload) @ e @ rest)
          (int (length pre) + 10 + int (length payload)) [int (length payload) + 2]
        = (if int32_words e = [int (length payload) + 2] then Inr () else Inl IOError)"
    using h g by (intro length_check_frame [OF e]) simp
  moreover have "int32_words e = [int (length payload) + 2] \<longleftrightarrow> e = h"
    using int32_words_eq_iff [OF e h] l by simp
  ultimately show "length_check cdata (int (length pre) + 10 + int (length payload))
           [int (length payload) + 2]
         = (if e = h then Inr () else Inl IOError)"
    by (simp add: c3)
qed

lemma read_cache_framed:
  assumes f1: "framed h1 g1 p1 e1" and f2: "framed h2 g2 p2 e2"
    and f3: "framed h3 g3 p3 e3" and f4: "framed h4 g4 p4 e4"
    and cd: "cdata = frame h1 g1 p1 e1 @ frame h2 g2 p2 e2 @ frame h3 g3 p3 e3
                     @ frame h4 g4 p4 e4 @ rest"
    and sz: "int (length cdata) \<le> 2147483651"
  shows "read_cache cdata =
     (if e1 \<noteq> h1 \<or> e2 \<noteq> h2 \<or> e3 \<noteq> h3 then Inl IOError
      else bind_err (np_fromstring_int32 p4) (\<lambda>flat.
           bind_err (case parse_meta p2 ''CH.CMP'' of None \<Rightarrow> Inl KeyError
                     | Some cmp \<Rightarrow> Inr (length cmp)) (\<lambda>num_chn.
           bind_err (np_reshape flat (length flat div num_chn) num_chn) (\<lambda>samples.
           if e4 \<noteq> h4 then Inl IOError
           else Inr \<lparr>nav_data = np_fromstring_int8 p1, meta_data = parse_meta p2,
                     cal_data = p3, ts = samples\<rparr>))))"
proof -
  note ln = length_frame [OF f1] length_frame [OF f2] length_frame [OF f3] length_frame [OF f4]
  have len: "int (length cdata) = 56 + int (length p1) + int (length p2) + int (length p3)
      + int (length p4) + int (length rest)"
    by (simp add: cd ln)
  have c1: "cdata = [] @ frame h1 g1 p1 e1 @ (frame h2 g2 p2 e2 @ frame h3 g3 p3 e3
                     @ frame h4 g4 p4 e4 @ rest)"
    by (simp add: cd)
  have c2: "cdata = frame h1 g1 p1 e1 @ frame h2 g2 p2 e2 @ (frame h3 g3 p3 e3
                     @ frame h4 g4 p4 e4 @ rest)"
    by (simp add: cd)
  have c3: "cdata = (frame h1 g1 p1 e1 @ frame h2 g2 p2 e2) @ frame h3 g3 p3 e3
                     @ (frame h4 g4 p4 e4 @ rest)"
    by (simp add: cd)
  have c4: "cdata = (frame h1 g1 p1 e1 @ frame h2 g2 p2 e2 @ frame h3 g3 p3 e3)
                     @ frame h4 g4 p4 e4 @ rest"
    by (simp add: cd)
  note s1 = frame_step [OF f1 c1]
  note s2 = frame_step [OF f2 c2]
  note s3 = frame_step [OF f3 c3]
  note s4 = frame_step [OF f4 c4]
  have r1: "int (length ([]::string)) + 10 + int (length p1) \<le> 2147483647"
    using sz len by simp
  have r2: "int (length (frame h1 g1 p1 e1)) + 10 + int (length p2) \<le> 2147483647"
    using sz len by (simp add: ln)
  have r3: "int (length (frame h1 g1 p1 e1 @ frame h2 g2 p2 e2)) + 10 + int (length p3)
              \<le> 2147483647"
    using sz len by (simp add: ln)
  have r4: "int (length (frame h1 g1 p1 e1 @ frame h2 g2 p2 e2 @ frame h3 g3 p3 e3)) + 10
              + int (length p4) \<le> 2147483647"
    using sz len by (simp add: ln)
  define i1 j1 i2 j2 i3 j3 i4 j4 :: int where "i1 = 10" and "j1 = 10 + int (length p1)"
    and "i2 = j1 + 14" and "j2 = j1 + 14 + int (length p2)"
    and "i3 = j2 + 14" and "j3 = j2 + 14 + int (length p3)"
    and "i4 = j3 + 14" and "j4 = j3 + 14 + int (length p4)"
  note d = i1_def j1_def i2_def j2_def i3_def j3_def i4_def j4_def
  have B1: "block_at cdata 0 = Inr ([int (length p1) + 2], i1, j1)"
    and S1: "py_slice cdata i1 j1 = p1"
    and C1: "length_check cdata j1 [int (length p1) + 2] = (if e1 = h1 then Inr () else Inl IOError)"
    using s1 [OF r1] by (simp_all add: d)
  have B2: "block_at cdata (j1 + 4) = Inr ([int (length p2) + 2], i2, j2)"
    and S2: "py_slice cdata i2 j2 = p2"
    and C2: "length_check cdata j2 [int (length p2) + 2] = (if e2 = h2 then Inr () else Inl IOError)"
    using s2 [OF r2] by (simp_all add: d ln add.commute add.left_commute)
  have B3: "block_at cdata (j2 + 4) = Inr ([int (length p3) + 2], i3, j3)"
    and S3: "py_slice cdata i3 j3 = p3"
    and C3: "length_check cdata j3 [int (length p3) + 2] = (if e3 = h3 then Inr () else Inl IOError)"
    using s3 [OF r3] by (simp_all add: d ln add.commute add.left_commute)
  have B4: "block_at cdata (j3 + 4) = Inr ([int (length p4) + 2], i4, j4)"
    and S4: "py_slice cdata i4 j4 = p4"
    and C4: "length_check cdata j4 [int (length p4) + 2] = (if e4 = h4 then Inr () else Inl IOError)"
    using s4 [OF r4] by (simp_all add: d ln add.commute add.left_commute)
  show ?thesis
    unfolding read_cache_def
    by (simp add: B1 S1 C1 B2 S2 C2 B3 S3 C3 B4 S4 C4 Let_def)
qed

section \<open>Splitting strings and reading the metadata\<close>

lemma py_split_not_Nil [simp]: "py_split sep s \<noteq> []"
  by (induction s) (auto split: list.splits)

lemma py_split_no_sep: "sep \<notin> set s \<Longrightarrow> py_split sep s = [s]"
  by (induction s) auto

lemma py_split_append_sep:
  "sep \<notin> set a \<Longrightarrow> py_split sep (a @ sep # b) = a # py_split sep b"
  by (induction a) auto

lemma py_split_lines:
  "\<forall>l \<in> set ls. sep \<notin> set l \<Longrightarrow>
   py_split sep (concat (map (\<lambda>l. l @ [sep]) ls)) = ls @ [[]]"
  by (induction ls) (simp_all add: py_split_append_sep)

lemma py_split_fields:
  "sep \<notin> set c \<Longrightarrow> \<forall>x \<in> set cs. sep \<notin> set x \<Longrightarrow>
   py_split sep (c @ concat (map (\<lambda>x. sep # x) cs)) = c # cs"
proof (induction cs arbitrary: c)
  case Nil
  then show ?case by (simp add: py_split_no_sep)
next
  case (Cons x xs)
  have "py_split sep (c @ sep # (x @ concat (map ((#) sep) xs))) 
        = c # py_split sep (x @ concat (map ((#) sep) xs))"
    using Cons.prems(1) by (rule py_split_append_sep)
  then show ?case using Cons by simp
qed

lemma find_from_single:
  "c \<notin> set a \<Longrightarrow> find_from [c] (a @ c # b) n = int (n + length a)"
  by (induction a arbitrary: n) auto

lemma find_from_single_none:
  "c \<notin> set a \<Longrightarrow> find_from [c] a n = -1"
  by (induction a arbitrary: n) auto

lemma parse_meta_line_key:
  assumes "CHR '','' \<notin> set k"
  shows "parse_meta_line (k @ CHR '','' # v) = (k, py_split CHR '','' v)"
proof -
  have f: "py_find (k @ CHR '','' # v) '','' None = int (length k)"
    using find_from_single [OF assms, of v 0] by (simp add: py_find_def)
  show ?thesis
    by (simp add: parse_meta_line_def f py_slice_def py_slice_from_def slice_bound_def
        nat_add_distrib)
qed

lemma parse_meta_line_prefix: "\<exists>n. fst (parse_meta_line mm) = take n mm"
  by (auto simp: parse_meta_line_def py_slice_def slice_bound_def Let_def)

lemma fold_upd_lookup:
  assumes "\<exists>l \<in> set ls. f l = k" and "\<forall>l \<in> set ls. f l = k \<longrightarrow> g l = v"
  shows "fold (\<lambda>l m. m(f l \<mapsto> g l)) ls m0 k = Some v"
proof -
  define F where "F = (\<lambda>l (m :: 'b \<rightharpoonup> 'c). m(f l \<mapsto> g l))"
  have "fold F ls m0 k = Some v"
    using assms
  proof (induction ls rule: rev_induct)
    case Nil
    then show ?case by simp
  next
    case (snoc x xs)
    have step: "fold F (xs @ [x]) m0 = (fold F xs m0)(f x \<mapsto> g x)"
      by (simp add: F_def)
    show ?case
    proof (cases "f x = k")
      case True
      then show ?thesis using snoc.prems(2) unfolding step by simp
    next
      case False
      then have "\<exists>l \<in> set xs. f l = k" using snoc.prems(1) by auto
      moreover have "\<forall>l \<in> set xs. f l = k \<longrightarrow> g l = v" using snoc.prems(2) by simp
      ultimately have "fold F xs m0 k = Some v" by (rule snoc.IH)
      then show ?thesis using False unfolding step by simp
    qed
  qed
  then show ?thesis by (simp only: F_def)
qed

lemma map_of_dict_set:
  "map_of (dict_set d k v) k' = (if k' = k then Some v else map_of d k')"
  by (induction d) auto

lemma keys_dict_set:
  "map fst (dict_set d k v) = (if k \<in> set (map fst d) then map fst d else map fst d @ [k])"
  by (induction d) (force simp: image_iff)+

lemma values_dict_set:
  "set (map snd (dict_set d k v)) \<subseteq> insert v (set (map snd d))"
proof (induction d)
  case Nil
  then show ?case by simp
next
  case (Cons a d)
  obtain k' v' where a: "a = (k', v')" by (cases a)
  show ?case using Cons unfolding a by (cases "k' = k") auto
qed

lemma dict_get_eq_Inr: "dict_get d k = Inr v \<longleftrightarrow> map_of d k = Some v"
  by (simp add: dict_get_def split: option.splits)

lemma dict_append_eq_Inr:
  "dict_append d k s = Inr d' \<longleftrightarrow> (\<exists>v. map_of d k = Some v \<and> d' = dict_set d k (v @ s))"
  by (auto simp: dict_append_def bind_err_eq_Inr dict_get_eq_Inr)

lemma py_index_0_Inr: "py_index xs 0 = Inr x \<Longrightarrow> xs \<noteq> [] \<and> x = hd xs"
  by (cases xs) (auto simp: py_index_def split: if_splits)

lemma py_index_Inr_mem: "py_index xs i = Inr x \<Longrightarrow> x \<in> set xs"
  by (auto simp: py_index_def split: if_splits)

lemma py_split_subset: "x \<in> set (py_split sep s) \<Longrightarrow> set x \<subseteq> set s"
proof (induction s arbitrary: x)
  case Nil
  then show ?case by simp
next
  case (Cons c cs)
  show ?case
  proof (cases "c = sep")
    case True
    then show ?thesis using Cons by auto
  next
    case False
    obtain w ws where w: "py_split sep cs = w # ws"
      by (cases "py_split sep cs") simp_all
    from Cons.prems False w have "x = c # w \<or> x \<in> set ws" by simp
    then show ?thesis
    proof
      assume "x = c # w"
      moreover have "set w \<subseteq> set cs" using Cons.IH [of w] w by simp
      ultimately show ?thesis by auto
    next
      assume "x \<in> set ws"
      then have "set x \<subseteq> set cs" using Cons.IH [of x] w by simp
      then show ?thesis by auto
    qed
  qed
qed

lemma str_nat_digits: "c \<in> set (str_nat n) \<Longrightarrow> is_digit c"
proof (induction n rule: str_nat.induct)
  case (1 n)
  have d: "is_digit (char_of (48 + k))" if "k < 10" for k :: nat
  proof -
    have "(of_char (char_of (48 + k)) :: nat) = 48 + k" using that by simp
    then show ?thesis using that by (simp add: is_digit_def less_eq_char_def)
  qed
  show ?case
  proof (cases "n < 10")
    case True
    then show ?thesis using "1.prems" d [of n] by (simp add: str_nat.simps [of n])
  next
    case False
    then show ?thesis using "1.prems" "1.IH" d [of "n mod 10"]
      by (auto simp: str_nat.simps [of n])
  qed
qed

lemma str_int_no_nl: "CHR 0x0A \<notin> set (str_int i)"
  by (auto simp: str_int_def is_digit_def less_eq_char_def dest!: str_nat_digits)

lemma py_upper_keeps:
  assumes "c \<notin> set s" and "of_char c < (65 :: nat)"
  shows "c \<notin> set (py_upper s)"
proof
  assume "c \<in> set (py_upper s)"
  then obtain x where x: "x \<in> set s"
    and c: "c = (if CHR ''a'' \<le> x \<and> x \<le> CHR ''z'' then char_of (of_char x - (32::nat)) else x)"
    by (auto simp: py_upper_def)
  show False
  proof (cases "CHR ''a'' \<le> x \<and> x \<le> CHR ''z''")
    case True
    then have r: "97 \<le> (of_char x :: nat)" "(of_char x :: nat) \<le> 122"
      by (simp_all add: less_eq_char_def)
    then have "(of_char (char_of (of_char x - (32::nat))) :: nat) = of_char x - 32" by simp
    then have "(of_char c :: nat) = of_char x - 32" using c True by simp
    then show False using r assms(2) by simp
  next
    case False
    with c have "c = x" by (simp only: if_False)
    then show False using x assms(1) by simp
  qed
qed

lemma meta_keys: "map fst meta_data_init =
  [''SURVEY.ACQMETHOD'', ''SURVEY.TYPE'', ''LENGTH.UNITS'', ''DATA.DATE0'', ''DATA.TIME0'',
   ''TS.ADFREQ'', ''TS.NPNT'', ''CH.NUNOM'', ''CH.FACTOR'', ''CH.GAIN'', ''CH.NUMBER'',
   ''CH.CMP'', ''CH.LENGTH'', ''CH.EXTGAIN'', ''CH.NOTCH'', ''CH.HIGHPASS'', ''CH.LOWPASS'',
   ''CH.ADCARDSN'', ''CH.STATUS'', ''CH.SP'', ''CH.GDPSLOT'', ''RX.STN'', ''RX.AZIMUTH'',
   ''LINE.NAME'', ''LINE.NUMBER'', ''LINE.DIRECTION'', ''LINE.SPREAD'', ''JOB.NAME'',
   ''JOB.FOR'', ''JOB.BY'', ''JOB.NUMBER'', ''GDP.File'', ''GDP.SN'', ''GDP.TCARDSN'',
   ''GDP.NUMCARD'', ''GDP.ADCARDSN'', ''GDP.ADCARDSND'', ''GDP.CARDTYPE'', ''GDP.BAT'',
   ''GDP.TEMP'', ''GDP.HUMID'', ''TS.NCYCLE'', ''TS.NWAVEFORM'', ''TS.DECFAC'',
   ''TX.SN,NONE'', ''TX.STN'', ''TX.FREQ'', ''TX.DUTY'', ''TX.AMP'', ''TX.SHUNT'']"
  by (simp add: meta_data_init_def)

lemma dict_set_inv:
  assumes "map fst d = ks" "k \<in> set ks" "\<forall>x \<in> set (map snd d). c \<notin> set x" "c \<notin> set v"
  shows "map fst (dict_set d k v) = ks \<and> (\<forall>x \<in> set (map snd (dict_set d k v)). c \<notin> set x)"
proof
  show "map fst (dict_set d k v) = ks" using assms(1,2) by (simp add: keys_dict_set)
  show "\<forall>x \<in> set (map snd (dict_set d k v)). c \<notin> set x"
  proof
    fix x assume "x \<in> set (map snd (dict_set d k v))"
    then have "x = v \<or> x \<in> set (map snd d)" using values_dict_set [of d k v] by blast
    then show "c \<notin> set x" using assms(3,4) by blast
  qed
qed

lemma dict_append_inv:
  assumes "dict_append d k s = Inr d'"
    and "map fst d = ks" "\<forall>x \<in> set (map snd d). c \<notin> set x" "c \<notin> set s"
  shows "map fst d' = ks \<and> (\<forall>x \<in> set (map snd d'). c \<notin> set x)"
proof -
  from assms(1) obtain v where v: "map_of d k = Some v" and d': "d' = dict_set d k (v @ s)"
    by (auto simp: dict_append_eq_Inr)
  from v have m: "(k, v) \<in> set d" by (rule map_of_SomeD)
  then have "k \<in> set ks" using assms(2) by force
  moreover have "c \<notin> set (v @ s)" using m assms(3,4) by force
  ultimately show ?thesis unfolding d' using assms(2,3) by (intro dict_set_inv) simp_all
qed

lemma dict_append_lookup:
  assumes "dict_append d k s = Inr d'"
  shows "map_of d' k' = (if k' = k then map_option (\<lambda>v. v @ s) (map_of d k) else map_of d k')"
  using assms by (auto simp: dict_append_eq_Inr map_of_dict_set)

lemma lowpass_no_nl: "dict_get ch_lowpass_dict k = Inr v \<Longrightarrow> CHR 0x0A \<notin> set v"
  by (auto simp: dict_get_eq_Inr ch_lowpass_dict_def split: if_splits)

lemma fill_meta_data_inv:
  assumes f: "fill_meta_data zt md = Inr md'"
    and ok: "meta_text_ok zt"
    and k: "map fst md = map fst meta_data_init"
    and n: "\<forall>x \<in> set (map snd md). CHR 0x0A \<notin> set x"
  shows "map fst md' = map fst meta_data_init \<and> (\<forall>x \<in> set (map snd md'). CHR 0x0A \<notin> set x)
    \<and> map_of md' ''CH.CMP''
        = map_option (\<lambda>v. v @ CHR '','' # py_upper (ch_cmp zt)) (map_of md ''CH.CMP'')"
proof -
  let ?ks = "map fst meta_data_init"
  let ?nl = "CHR 0x0A"
  from f obtain d0 date0 time0 m1 m2 m3 m4 m5 m6 m7 lowpass m8 m9 m10 where
    d0: "py_index (date_time zt) 0 = Inr d0"
    and date0: "py_index (py_split CHR '','' d0) 0 = Inr date0"
    and time0: "py_index (py_split CHR '','' d0) 1 = Inr time0"
    and m1: "dict_append
       (dict_set (dict_set (dict_set md ''DATA.DATE0'' (CHR '','' # date0))
          ''DATA.TIME0'' (CHR '','' # time0)) ''TS.ADFREQ'' (CHR '','' # str_int (df zt)))
       ''CH.FACTOR'' (CHR '','' # ch_factor) = Inr m1"
    and m2: "dict_append m1 ''CH.GAIN'' (CHR '','' # ch_gain) = Inr m2"
    and m3: "dict_append m2 ''CH.CMP'' (CHR '','' # py_upper (ch_cmp zt)) = Inr m3"
    and m4: "dict_append m3 ''CH.LENGTH'' (CHR '','' # ch_length zt) = Inr m4"
    and m5: "dict_append m4 ''CH.EXTGAIN'' '',1'' = Inr m5"
    and m6: "dict_append m5 ''CH.NOTCH'' '',NONE'' = Inr m6"
    and m7: "dict_append m6 ''CH.HIGHPASS'' '',NONE'' = Inr m7"
    and lp: "dict_get ch_lowpass_dict (str_int (df zt)) = Inr lowpass"
    and m8: "dict_append m7 ''CH.LOWPASS'' (CHR '','' # lowpass) = Inr m8"
    and m9: "dict_append m8 ''CH.ADCARDSN'' (CHR '','' # ch_adcard_sn zt) = Inr m9"
    and m10: "dict_append m9 ''CH.NUMBER'' (CHR '','' # ch_number zt) = Inr m10"
    and m11: "dict_append m10 ''RX.STN'' (CHR '','' # rx_stn zt) = Inr md'"
    unfolding fill_meta_data_def bind_err_eq_Inr by blast
  from py_index_0_Inr [OF d0] have dt: "date_time zt \<noteq> []" "d0 = hd (date_time zt)" by simp_all
  then have "set d0 \<subseteq> set (concat (take 1 (date_time zt)))"
    by (cases "date_time zt") simp_all
  then have d0n: "?nl \<notin> set d0" using ok by (auto simp: meta_text_ok_def)
  have daten: "?nl \<notin> set date0"
    using py_split_subset [OF py_index_Inr_mem [OF date0]] d0n by auto
  have timen: "?nl \<notin> set time0"
    using py_split_subset [OF py_index_Inr_mem [OF time0]] d0n by auto
  have a1: "map fst (dict_set md ''DATA.DATE0'' (CHR '','' # date0)) = ?ks
      \<and> (\<forall>x \<in> set (map snd (dict_set md ''DATA.DATE0'' (CHR '','' # date0))). ?nl \<notin> set x)"
    using k n daten by (intro dict_set_inv) (simp_all add: meta_keys)
  have a2: "map fst (dict_set (dict_set md ''DATA.DATE0'' (CHR '','' # date0))
          ''DATA.TIME0'' (CHR '','' # time0)) = ?ks
      \<and> (\<forall>x \<in> set (map snd (dict_set (dict_set md ''DATA.DATE0'' (CHR '','' # date0))
          ''DATA.TIME0'' (CHR '','' # time0))). ?nl \<notin> set x)"
    using a1 timen by (intro dict_set_inv) (simp_all add: meta_keys)
  have a3: "map fst (dict_set (dict_set (dict_set md ''DATA.DATE0'' (CHR '','' # date0))
          ''DATA.TIME0'' (CHR '','' # time0)) ''TS.ADFREQ'' (CHR '','' # str_int (df zt))) = ?ks
      \<and> (\<forall>x \<in> set (map snd (dict_set (dict_set (dict_set md ''DATA.DATE0'' (CHR '','' # date0))
          ''DATA.TIME0'' (CHR '','' # time0)) ''TS.ADFREQ'' (CHR '','' # str_int (df zt)))).
            ?nl \<notin> set x)"
    using a2 str_int_no_nl [of "df zt"] by (intro dict_set_inv) (simp_all add: meta_keys)
  have i1: "map fst m1 = ?ks \<and> (\<forall>x \<in> set (map snd m1). ?nl \<notin> set x)"
    using a3 by (intro dict_append_inv [OF m1]) (simp_all add: ch_factor_def)
  have i2: "map fst m2 = ?ks \<and> (\<forall>x \<in> set (map snd m2). ?nl \<notin> set x)"
    using i1 by (intro dict_append_inv [OF m2]) (simp_all add: ch_gain_def)
  have "?nl \<notin> set (py_upper (ch_cmp zt))"
    using ok by (intro py_upper_keeps) (simp_all add: meta_text_ok_def)
  then have i3: "map fst m3 = ?ks \<and> (\<forall>x \<in> set (map snd m3). ?nl \<notin> set x)"
    using i2 by (intro dict_append_inv [OF m3]) simp_all
  have i4: "map fst m4 = ?ks \<and> (\<forall>x \<in> set (map snd m4). ?nl \<notin> set x)"
    using i3 ok by (intro dict_append_inv [OF m4]) (simp_all add: meta_text_ok_def)
  have i5: "map fst m5 = ?ks \<and> (\<forall>x \<in> set (map snd m5). ?nl \<notin> set x)"
    using i4 by (intro dict_append_inv [OF m5]) simp_all
  have i6: "map fst m6 = ?ks \<and> (\<forall>x \<in> set (map snd m6). ?nl \<notin> set x)"
    using i5 by (intro dict_append_inv [OF m6]) simp_all
  have i7: "map fst m7 = ?ks \<and> (\<forall>x \<in> set (map snd m7). ?nl \<notin> set x)"
    using i6 by (intro dict_append_inv [OF m7]) simp_all
  have i8: "map fst m8 = ?ks \<and> (\<forall>x \<in> set (map snd m8). ?nl \<notin> set x)"
    using i7 lowpass_no_nl [OF lp] by (intro dict_append_inv [OF m8]) simp_all
  have i9: "map fst m9 = ?ks \<and> (\<forall>x \<in> set (map snd m9). ?nl \<notin> set x)"
    using i8 ok by (intro dict_append_inv [OF m9]) (simp_all add: meta_text_ok_def)
  have i10: "map fst m10 = ?ks \<and> (\<forall>x \<in> set (map snd m10). ?nl \<notin> set x)"
    using i9 ok by (intro dict_append_inv [OF m10]) (simp_all add: meta_text_ok_def)
  have i11: "map fst md' = ?ks \<and> (\<forall>x \<in> set (map snd md'). ?nl \<notin> set x)"
    using i10 ok by (intro dict_append_inv [OF m11]) (simp_all add: meta_text_ok_def)
  have "map_of md' ''CH.CMP''
        = map_option (\<lambda>v. v @ CHR '','' # py_upper (ch_cmp zt)) (map_of md ''CH.CMP'')"
    by (simp add: dict_append_lookup [OF m11] dict_append_lookup [OF m10]
        dict_append_lookup [OF m9] dict_append_lookup [OF m8] dict_append_lookup [OF m7]
        dict_append_lookup [OF m6] dict_append_lookup [OF m5] dict_append_lookup [OF m4]
        dict_append_lookup [OF m3] dict_append_lookup [OF m2] dict_append_lookup [OF m1]
        map_of_dict_set)
  with i11 show ?thesis by simp
qed

lemma meta_data_init_inv:
  "\<forall>x \<in> set (map snd meta_data_init). CHR 0x0A \<notin> set x"
  "map_of meta_data_init ''CH.CMP'' = Some []"
  by (simp_all add: meta_data_init_def)

lemma fill_meta_data_all_inv:
  assumes "fill_meta_data_all zts md = Inr md'"
    and "\<forall>zt \<in> set zts. meta_text_ok zt"
    and "map fst md = map fst meta_data_init"
    and "\<forall>x \<in> set (map snd md). CHR 0x0A \<notin> set x"
    and "map_of md ''CH.CMP'' = Some v"
  shows "map fst md' = map fst meta_data_init \<and> (\<forall>x \<in> set (map snd md'). CHR 0x0A \<notin> set x)
    \<and> map_of md' ''CH.CMP''
        = Some (v @ concat (map (\<lambda>zt. CHR '','' # py_upper (ch_cmp zt)) zts))"
  using assms
proof (induction zts arbitrary: md v)
  case Nil
  then show ?case by simp
next
  case (Cons zt zts)
  from Cons.prems(1) obtain m where m: "fill_meta_data zt md = Inr m"
    and r: "fill_meta_data_all zts m = Inr md'"
    by (auto simp: bind_err_eq_Inr)
  have ok: "meta_text_ok zt" using Cons.prems(2) by simp
  note i = fill_meta_data_inv [OF m ok Cons.prems(3) Cons.prems(4)]
  have c: "map_of m ''CH.CMP'' = Some (v @ CHR '','' # py_upper (ch_cmp zt))"
    using i Cons.prems(5) by simp
  have "map fst md' = map fst meta_data_init \<and> (\<forall>x \<in> set (map snd md'). CHR 0x0A \<notin> set x)
    \<and> map_of md' ''CH.CMP''
        = Some ((v @ CHR '','' # py_upper (ch_cmp zt))
                @ concat (map (\<lambda>zt. CHR '','' # py_upper (ch_cmp zt)) zts))"
    using Cons.prems(2) i by (intro Cons.IH [OF r _ _ _ c]) simp_all
  then show ?case by simp
qed

lemma take_append_eq:
  assumes "take n (k @ v) = w"
  shows "take (min (length w) (length k)) k = take (min (length w) (length k)) w"
proof -
  define m where "m = min (length w) (length k)"
  have "length w \<le> n" using assms by auto
  then have mn: "m \<le> n" and mk: "m \<le> length k" by (simp_all add: m_def)
  have "take m w = take m (take n (k @ v))" using assms by simp
  also have "\<dots> = take m (k @ v)" using mn by (simp only: take_take min_absorb1)
  also have "\<dots> = take m k" using mk by simp
  finally show ?thesis by (simp only: m_def)
qed

lemma other_keys_differ:
  "\<forall>k \<in> set (map fst meta_data_init). k \<noteq> ''CH.CMP'' \<longrightarrow>
     take (min 6 (length k)) k \<noteq> take (min 6 (length k)) ''CH.CMP''"
  unfolding meta_keys by simp

lemma other_lines_differ:
  assumes "k \<in> set (map fst meta_data_init)" "k \<noteq> ''CH.CMP''"
  shows "fst (parse_meta_line (k @ v)) \<noteq> ''CH.CMP''"
proof
  assume a: "fst (parse_meta_line (k @ v)) = ''CH.CMP''"
  from parse_meta_line_prefix [of "k @ v"] obtain n where
    "fst (parse_meta_line (k @ v)) = take n (k @ v)" by blast
  with a have "take n (k @ v) = ''CH.CMP''" by simp
  from take_append_eq [OF this]
  have "take (min (length ''CH.CMP'') (length k)) k
        = take (min (length ''CH.CMP'') (length k)) ''CH.CMP''" .
  moreover have "length ''CH.CMP'' = 6" by simp
  ultimately have "take (min 6 (length k)) k = take (min 6 (length k)) ''CH.CMP''"
    by (simp only:)
  then show False using other_keys_differ assms by blast
qed

lemma keys_no_nl: "\<forall>k \<in> set (map fst meta_data_init). CHR 0x0A \<notin> set k"
  unfolding meta_keys by simp

lemma parse_meta_cmp:
  assumes keys: "map fst md = map fst meta_data_init"
    and nl: "\<forall>x \<in> set (map snd md). CHR 0x0A \<notin> set x"
    and cmp: "map_of md ''CH.CMP'' = Some (concat (map (\<lambda>c. CHR '','' # c) cs))"
    and ne: "cs \<noteq> []"
    and nc: "\<forall>c \<in> set cs. CHR '','' \<notin> set c"
  shows "parse_meta (meta_str_of md) ''CH.CMP'' = Some cs"
proof -
  define val where "val k = (case map_of md k of Some v \<Rightarrow> v | None \<Rightarrow> [])" for k
  define ls where "ls = map (\<lambda>k. k @ val k) (sort (map fst md))"
  have ms: "meta_str_of md = concat (map (\<lambda>l. l @ [CHR 0x0A]) ls)"
  proof -
    have "meta_line md = (\<lambda>k. (k @ val k) @ [CHR 0x0A])"
      by (rule ext) (simp add: meta_line_def val_def)
    then show ?thesis by (simp add: meta_str_of_def ls_def comp_def)
  qed
  have valnl: "CHR 0x0A \<notin> set (val k)" for k
  proof (cases "map_of md k")
    case None
    then show ?thesis by (simp add: val_def)
  next
    case (Some v)
    then have "(k, v) \<in> set md" by (rule map_of_SomeD)
    then have "v \<in> set (map snd md)" by force
    then have "CHR 0x0A \<notin> set v" using nl by blast
    then show ?thesis using Some by (simp add: val_def)
  qed
  have lsnl: "\<forall>l \<in> set ls. CHR 0x0A \<notin> set l"
    using keys_no_nl valnl by (auto simp: ls_def keys)
  have sp: "py_split (CHR 0x0A) (meta_str_of md) = ls @ [[]]"
    unfolding ms using lsnl by (rule py_split_lines)
  obtain c1 cs' where cs: "cs = c1 # cs'" using ne by (cases cs) auto
  have cmpline: "parse_meta_line (''CH.CMP'' @ val ''CH.CMP'') = (''CH.CMP'', cs)"
  proof -
    have v: "val ''CH.CMP'' = CHR '','' # (c1 @ concat (map (\<lambda>c. CHR '','' # c) cs'))"
      by (simp add: val_def cmp cs)
    have "parse_meta_line (''CH.CMP'' @ CHR '','' # (c1 @ concat (map (\<lambda>c. CHR '','' # c) cs')))
          = (''CH.CMP'', py_split CHR '','' (c1 @ concat (map (\<lambda>c. CHR '','' # c) cs')))"
      by (rule parse_meta_line_key) simp
    moreover have "py_split CHR '','' (c1 @ concat (map (\<lambda>c. CHR '','' # c) cs')) = c1 # cs'"
      using nc by (intro py_split_fields) (simp_all add: cs)
    ultimately show ?thesis by (simp only: v cs)
  qed
  have inls: "''CH.CMP'' @ val ''CH.CMP'' \<in> set ls"
    by (simp add: ls_def keys meta_keys)
  have ex: "\<exists>l \<in> set (ls @ [[]]). fst (parse_meta_line l) = ''CH.CMP''"
    using inls cmpline by force
  have empty: "fst (parse_meta_line []) \<noteq> ''CH.CMP''"
    by (simp add: parse_meta_line_def py_slice_def)
  have all: "\<forall>l \<in> set (ls @ [[]]). fst (parse_meta_line l) = ''CH.CMP''
               \<longrightarrow> snd (parse_meta_line l) = cs"
  proof (intro ballI impI)
    fix l assume l: "l \<in> set (ls @ [[]])" and f: "fst (parse_meta_line l) = ''CH.CMP''"
    from l empty f obtain k where k: "k \<in> set (map fst meta_data_init)" and lk: "l = k @ val k"
      by (auto simp: ls_def keys)
    have "k = ''CH.CMP''" using other_lines_differ [OF k, of "val k"] f lk by blast
    then show "snd (parse_meta_line l) = cs" using cmpline lk by simp
  qed
  show ?thesis
    unfolding parse_meta_def sp using ex all by (rule fold_upd_lookup)
qed

section \<open>The cache writer\<close>

lemma pack_i_eq_Inr: "pack_i n = Inr b \<longleftrightarrow> in_int32 n \<and> b = int32_bytes n"
  by (auto simp: pack_i_def)

lemma block_stamp_eq_Inr:
  "block_stamp l t = Inr b \<longleftrightarrow>
     in_int32 l \<and> - 32768 \<le> t \<and> t \<le> 32767
     \<and> b = int32_bytes l @ int32_bytes cache_flag @ int16_bytes t"
  by (auto simp: block_stamp_def bind_err_eq_Inr pack_i_eq_Inr pack_h_def cache_flag_def
      in_int32_def)

lemma py_trunc_of_int [simp]: "py_trunc (of_int k) = k"
  by (simp add: py_trunc_def)

lemma write_rows_ok:
  assumes "\<forall>zz \<in> set zzs. zz < length tsm \<and> length (tsm ! zz) = n
             \<and> (\<forall>x \<in> set (tsm ! zz). in_int32 (py_trunc x))"
  shows "write_rows n tsm zzs
         = Inr (concat (map (\<lambda>zz. concat (map (\<lambda>x. int32_bytes (py_trunc x)) (tsm ! zz))) zzs), [])"
  using assms
proof (induction zzs)
  case Nil
  then show ?case by simp
next
  case (Cons zz zzs)
  then have zz: "zz < length tsm" "length (tsm ! zz) = n"
    "\<forall>x \<in> set (tsm ! zz). in_int32 (py_trunc x)" by simp_all
  have "write_row n tsm zz = Inr (concat (map (\<lambda>x. int32_bytes (py_trunc x)) (tsm ! zz)), [])"
    using zz by (simp add: write_row_def py_index_nat pack_row_def list_all_iff)
  then show ?case using Cons by simp
qed

lemma write_rows_all:
  assumes "\<forall>row \<in> set tsm. length row = n \<and> (\<forall>x \<in> set row. in_int32 (py_trunc x))"
  shows "write_rows n tsm [0..<length tsm]
         = Inr (concat (map (\<lambda>row. concat (map (\<lambda>x. int32_bytes (py_trunc x)) row)) tsm), [])"
proof -
  have "write_rows n tsm [0..<length tsm]
     = Inr (concat (map (\<lambda>zz. concat (map (\<lambda>x. int32_bytes (py_trunc x)) (tsm ! zz)))
                      [0..<length tsm]), [])"
  proof (rule write_rows_ok, intro ballI)
    fix zz assume "zz \<in> set [0..<length tsm]"
    then have "zz < length tsm" by simp
    then have "tsm ! zz \<in> set tsm" by simp
    with assms \<open>zz < length tsm\<close>
    show "zz < length tsm \<and> length (tsm ! zz) = n
          \<and> (\<forall>x \<in> set (tsm ! zz). in_int32 (py_trunc x))" by blast
  qed
  moreover have "map (\<lambda>zz. concat (map (\<lambda>x. int32_bytes (py_trunc x)) (tsm ! zz))) [0..<length tsm]
     = map (\<lambda>row. concat (map (\<lambda>x. int32_bytes (py_trunc x)) row)) tsm"
    by (rule nth_equalityI) simp_all
  ultimately show ?thesis by simp
qed

lemma concat_map_concat:
  "concat (map (\<lambda>row. concat (map f row)) rows) = concat (map f (concat rows))"
  by (induction rows) simp_all

lemma int32_words_concat:
  "int32_words (concat (map int32_bytes ks)) = map wrap_int32 ks"
  by (induction ks) (simp_all add: int32_words_bytes)

lemma length_concat_int32_bytes:
  "length (concat (map int32_bytes ks)) = 4 * length ks"
  by (induction ks) simp_all

lemma rows_of_concat:
  "\<forall>r \<in> set rows. length r = n \<Longrightarrow> rows_of (length rows) n (concat rows) = rows"
  by (induction rows) simp_all

lemma length_concat_rows:
  "\<forall>r \<in> set rows. length r = n \<Longrightarrow> length (concat rows) = length rows * n"
  by (induction rows) simp_all

lemma np_reshape_rows:
  assumes "\<forall>r \<in> set rows. length r = n" "0 < n"
  shows "np_reshape (concat rows) (length (concat rows) div n) n = Inr rows"
proof -
  have l: "length (concat rows) = length rows * n" using assms(1) by (rule length_concat_rows)
  have d: "length (concat rows) div n = length rows" using assms(2) by (simp add: l)
  show ?thesis
    unfolding np_reshape_def d using l rows_of_concat [OF assms(1)] by simp
qed

lemma cal_data_of_not_Nil: "cal_data_of n \<noteq> []"
  by (simp add: cal_data_of_def cal_data1_def)

lemma length_cal_payload:
  "length (py_slice_to (cal_data_of n) (-1) @ [CHR 0x0A]) = length (cal_data_of n)"
  using cal_data_of_not_Nil [of n]
  by (cases "cal_data_of n") (simp_all add: py_slice_to_def slice_bound_def)

lemma write_cache_frames_Inr:
  assumes w: "write_cache_frames md n_fn tsm ts_len = Inr (cdata, log_lines)"
  defines "meta_str \<equiv> meta_str_of (dict_set md ''TS.NPNT'' (CHR '','' # str_nat ts_len))"
  defines "cal \<equiv> py_slice_to (cal_data_of n_fn) (-1) @ [CHR 0x0A]"
  shows "\<exists>ts_bytes.
      write_rows n_fn tsm [0..<ts_len] = Inr (ts_bytes, log_lines)
    \<and> in_int32 (int (length meta_str) + 2) \<and> in_int32 (int (length cal) + 2)
    \<and> in_int32 (int ts_len * int n_fn * 4 + 2)
    \<and> cdata =
        frame (int32_bytes 43) (int32_bytes (-1) @ int16_bytes 4) (replicate 41 (CHR 0x00))
          (int32_bytes 43)
      @ frame (int32_bytes (int (length meta_str) + 2)) (int32_bytes (-1) @ int16_bytes 514)
          meta_str (int32_bytes (int (length meta_str) + 2))
      @ frame (int32_bytes (int (length cal) + 2)) (int32_bytes (-1) @ int16_bytes 768)
          cal (int32_bytes (int (length cal) + 2))
      @ frame (int32_bytes (int ts_len * int n_fn * 4 + 2)) (int32_bytes (-1) @ int16_bytes 16)
          ts_bytes (int32_bytes (int ts_len * int n_fn * 4 + 2))"
proof -
  have lc: "int (length (cal_data_of n_fn)) = int (length cal)"
    by (simp only: cal_def length_cal_payload)
  from w obtain nav_stamp nav_end meta_stamp meta_end cal_stamp cal_end ts_stamp ts_bytes ts_end where
    a1: "block_stamp nav_len type_nav = Inr nav_stamp"
    and a2: "pack_i nav_len = Inr nav_end"
    and a3: "block_stamp (int (length meta_str) + 2) type_meta = Inr meta_stamp"
    and a4: "pack_i (int (length meta_str) + 2) = Inr meta_end"
    and a5: "block_stamp (int (length (cal_data_of n_fn)) + 2) type_cal = Inr cal_stamp"
    and a6: "pack_i (int (length (cal_data_of n_fn)) + 2) = Inr cal_end"
    and a7: "block_stamp (int ts_len * int n_fn * 4 + 2) type_ts = Inr ts_stamp"
    and a8: "write_rows n_fn tsm [0..<ts_len] = Inr (ts_bytes, log_lines)"
    and a9: "pack_i (int ts_len * int n_fn * 4 + 2) = Inr ts_end"
    and cd: "cdata = nav_stamp @ replicate (nat (nav_len - 2)) (CHR 0x00) @ nav_end
          @ meta_stamp @ meta_str @ meta_end
          @ cal_stamp @ cal @ cal_end
          @ ts_stamp @ ts_bytes @ ts_end"
    by (auto simp: write_cache_frames_def Let_def bind_err_eq_Inr meta_str_def cal_def
        split: prod.splits)
  note b = a1 [unfolded block_stamp_eq_Inr] a2 [unfolded pack_i_eq_Inr]
    a3 [unfolded block_stamp_eq_Inr] a4 [unfolded pack_i_eq_Inr]
    a5 [unfolded block_stamp_eq_Inr lc] a6 [unfolded pack_i_eq_Inr lc]
    a7 [unfolded block_stamp_eq_Inr] a9 [unfolded pack_i_eq_Inr]
  have "write_rows n_fn tsm [0..<ts_len] = Inr (ts_bytes, log_lines)"
    using a8 by simp
  moreover have "cdata =
        frame (int32_bytes 43) (int32_bytes (-1) @ int16_bytes 4) (replicate 41 (CHR 0x00))
          (int32_bytes 43)
      @ frame (int32_bytes (int (length meta_str) + 2)) (int32_bytes (-1) @ int16_bytes 514)
          meta_str (int32_bytes (int (length meta_str) + 2))
      @ frame (int32_bytes (int (length cal) + 2)) (int32_bytes (-1) @ int16_bytes 768)
          cal (int32_bytes (int (length cal) + 2))
      @ frame (int32_bytes (int ts_len * int n_fn * 4 + 2)) (int32_bytes (-1) @ int16_bytes 16)
          ts_bytes (int32_bytes (int ts_len * int n_fn * 4 + 2))"
    unfolding cd using b
    by (simp add: frame_def nav_len_def cache_flag_def type_nav_def type_meta_def type_cal_def
        type_ts_def)
  ultimately show ?thesis using b by blast
qed

section \<open>Writing a cache file and reading it back\<close>

lemma framed_int32_bytes:
  assumes "in_int32 (int (length p) + 2)" "length g = 6"
  shows "framed (int32_bytes (int (length p) + 2)) g p (int32_bytes (int (length p) + 2))"
  using assms by (simp add: framed_def int32_words_bytes_single wrap_int32_id)

lemma sample_bytes:
  "concat (map (\<lambda>row. concat (map (\<lambda>x. int32_bytes (py_trunc x)) row))
       (map (map real_of_int) im))
   = concat (map int32_bytes (concat im))"
proof -
  have "concat (map (\<lambda>x. int32_bytes (py_trunc x)) (map real_of_int row))
        = concat (map int32_bytes row)" for row
    by (simp add: comp_def)
  then show ?thesis by (simp add: comp_def concat_map_concat)
qed

lemma map_wrap_int32_id: "\<forall>k \<in> set ks. in_int32 k \<Longrightarrow> map wrap_int32 ks = ks"
  by (induction ks) (simp_all add: wrap_int32_id)

lemma cmp_fields:
  assumes "\<forall>zt \<in> set zts. meta_text_ok zt"
  shows "\<forall>c \<in> set (map (\<lambda>zt. py_upper (ch_cmp zt)) zts). CHR '','' \<notin> set c"
proof -
  have "CHR '','' \<notin> set (py_upper (ch_cmp zt))" if "zt \<in> set zts" for zt
  proof (rule py_upper_keeps)
    show "CHR '','' \<notin> set (ch_cmp zt)" using assms that by (simp add: meta_text_ok_def)
    show "of_char CHR '','' < (65 :: nat)" by simp
  qed
  then show ?thesis by simp
qed

lemma written_cmp:
  assumes fill: "fill_meta_data_all zts meta_data_init = Inr md"
    and ne: "zts \<noteq> []"
    and ok: "\<forall>zt \<in> set zts. meta_text_ok zt"
  shows "parse_meta (meta_str_of (dict_set md ''TS.NPNT'' (CHR '','' # str_nat n))) ''CH.CMP''
         = Some (map (\<lambda>zt. py_upper (ch_cmp zt)) zts)"
proof -
  have i: "map fst md = map fst meta_data_init"
    "\<forall>x \<in> set (map snd md). CHR 0x0A \<notin> set x"
    "map_of md ''CH.CMP'' = Some ([] @ concat (map (\<lambda>zt. CHR '','' # py_upper (ch_cmp zt)) zts))"
    using fill_meta_data_all_inv [OF fill ok refl meta_data_init_inv] by simp_all
  have npnt: "''TS.NPNT'' \<in> set (map fst meta_data_init)" by (simp add: meta_keys)
  have nl: "CHR 0x0A \<notin> set (CHR '','' # str_nat n)"
    using str_int_no_nl [of "int n"] by (simp add: str_int_def)
  note s = dict_set_inv [OF i(1) npnt i(2) nl]
  show ?thesis
  proof (rule parse_meta_cmp)
    show "map fst (dict_set md ''TS.NPNT'' (CHR '','' # str_nat n)) = map fst meta_data_init"
      using s by simp
    show "\<forall>x \<in> set (map snd (dict_set md ''TS.NPNT'' (CHR '','' # str_nat n))). CHR 0x0A \<notin> set x"
      using s by simp
    show "map_of (dict_set md ''TS.NPNT'' (CHR '','' # str_nat n)) ''CH.CMP''
          = Some (concat (map (\<lambda>c. CHR '','' # c) (map (\<lambda>zt. py_upper (ch_cmp zt)) zts)))"
      using i(3) by (simp add: map_of_dict_set comp_def)
    show "map (\<lambda>zt. py_upper (ch_cmp zt)) zts \<noteq> []" using ne by simp
    show "\<forall>c \<in> set (map (\<lambda>zt. py_upper (ch_cmp zt)) zts). CHR '','' \<notin> set c"
      using ok by (rule cmp_fields)
  qed
qed

text \<open>
  C1: a matrix of \<open>length im\<close> rows by one column per channel, every value a signed
  32-bit integer, is written by \<open>write_cache_file\<close> after the metadata of the channels
  \<open>zt_lst\<close> (at least one, their texts as \<open>read_3d\<close> leaves them); when the write
  succeeds and the file is at most \<open>2\<^sup>3\<^sup>1 + 3\<close> bytes long, so that the offsets that
  \<open>read_cache\<close> computes in 32-bit arithmetic do not wrap around, \<open>read_cache\<close>
  returns the same matrix, and a list of channel components as long as the list of
  the channels.
\<close>

theorem cache_round_trip:
  assumes fill: "fill_meta_data_all zt_lst meta_data_init = Inr md"
    and ne: "zt_lst \<noteq> []"
    and ok: "\<forall>zt \<in> set zt_lst. meta_text_ok zt"
    and rows: "\<forall>row \<in> set im. length row = length zt_lst \<and> (\<forall>k \<in> set row. in_int32 k)"
    and w: "write_cache_frames md (length zt_lst) (map (map real_of_int) im) (length im)
            = Inr (cdata, log_lines)"
    and sz: "int (length cdata) \<le> 2147483651"
  shows "\<exists>c. read_cache cdata = Inr c \<and> ts c = im
           \<and> map_option length (meta_data c ''CH.CMP'') = Some (length zt_lst)"
proof -
  define n where "n = length zt_lst"
  define meta_str where "meta_str = meta_str_of (dict_set md ''TS.NPNT'' (CHR '','' # str_nat (length im)))"
  define cal where "cal = py_slice_to (cal_data_of n) (-1) @ [CHR 0x0A]"
  define p4 where "p4 = concat (map int32_bytes (concat im))"
  have n0: "0 < n" using ne by (simp add: n_def)
  have rl: "\<forall>r \<in> set im. length r = n" using rows by (simp add: n_def)
  have rng: "\<forall>k \<in> set (concat im). in_int32 k" using rows by auto
  from write_cache_frames_Inr [OF w] obtain ts_bytes where
    wr: "write_rows n (map (map real_of_int) im) [0..<length im] = Inr (ts_bytes, log_lines)"
    and b2: "in_int32 (int (length meta_str) + 2)"
    and b3: "in_int32 (int (length cal) + 2)"
    and b4: "in_int32 (int (length im) * int n * 4 + 2)"
    and cd: "cdata =
        frame (int32_bytes 43) (int32_bytes (-1) @ int16_bytes 4) (replicate 41 (CHR 0x00))
          (int32_bytes 43)
      @ frame (int32_bytes (int (length meta_str) + 2)) (int32_bytes (-1) @ int16_bytes 514)
          meta_str (int32_bytes (int (length meta_str) + 2))
      @ frame (int32_bytes (int (length cal) + 2)) (int32_bytes (-1) @ int16_bytes 768)
          cal (int32_bytes (int (length cal) + 2))
      @ frame (int32_bytes (int (length im) * int n * 4 + 2)) (int32_bytes (-1) @ int16_bytes 16)
          ts_bytes (int32_bytes (int (length im) * int n * 4 + 2)) @ []"
    unfolding n_def [symmetric] meta_str_def [symmetric] cal_def [symmetric] by auto
  have "write_rows n (map (map real_of_int) im) [0..<length (map (map real_of_int) im)]
        = Inr (concat (map (\<lambda>row. concat (map (\<lambda>x. int32_bytes (py_trunc x)) row))
                 (map (map real_of_int) im)), [])"
    using rows by (intro write_rows_all) (auto simp: n_def)
  with wr have "ts_bytes = concat (map (\<lambda>row. concat (map (\<lambda>x. int32_bytes (py_trunc x)) row))
                 (map (map real_of_int) im))"
    by simp
  then have tb: "ts_bytes = p4"
    by (simp only: sample_bytes p4_def)
  have l4: "length p4 = 4 * length (concat im)"
    by (simp add: p4_def length_concat_int32_bytes)
  have lc: "length (concat im) = length im * n" using rl by (rule length_concat_rows)
  have l4': "int (length im) * int n * 4 + 2 = int (length p4) + 2"
    by (simp add: l4 lc)
  have f1: "framed (int32_bytes 43) (int32_bytes (-1) @ int16_bytes 4) (replicate 41 (CHR 0x00))
              (int32_bytes 43)"
    using framed_int32_bytes [of "replicate 41 (CHR 0x00)" "int32_bytes (-1) @ int16_bytes 4"]
    by (simp add: in_int32_def)
  have f2: "framed (int32_bytes (int (length meta_str) + 2)) (int32_bytes (-1) @ int16_bytes 514)
          meta_str (int32_bytes (int (length meta_str) + 2))"
    using b2 by (intro framed_int32_bytes) simp_all
  have f3: "framed (int32_bytes (int (length cal) + 2)) (int32_bytes (-1) @ int16_bytes 768)
          cal (int32_bytes (int (length cal) + 2))"
    using b3 by (intro framed_int32_bytes) simp_all
  have f4: "framed (int32_bytes (int (length im) * int n * 4 + 2)) (int32_bytes (-1) @ int16_bytes 16)
          ts_bytes (int32_bytes (int (length im) * int n * 4 + 2))"
    unfolding l4' tb using b4 [unfolded l4'] by (intro framed_int32_bytes) simp_all
  have flat: "np_fromstring_int32 p4 = Inr (concat im)"
  proof -
    have "length p4 mod 4 = 0" by (simp only: l4 mod_mult_self1_is_0)
    moreover have "int32_words p4 = concat im"
      using rng by (simp only: p4_def int32_words_concat map_wrap_int32_id)
    ultimately show ?thesis by (simp add: np_fromstring_int32_def)
  qed
  have cmp: "parse_meta meta_str ''CH.CMP'' = Some (map (\<lambda>zt. py_upper (ch_cmp zt)) zt_lst)"
    unfolding meta_str_def using fill ne ok by (rule written_cmp)
  have rs: "np_reshape (concat im) (length (concat im) div n) n = Inr im"
    using rl n0 by (rule np_reshape_rows)
  have "read_cache cdata = Inr \<lparr>nav_data = np_fromstring_int8 (replicate 41 (CHR 0x00)),
          meta_data = parse_meta meta_str, cal_data = cal, ts = im\<rparr>"
    unfolding read_cache_framed [OF f1 f2 f3 f4 cd sz]
    by (simp add: tb flat cmp rs n_def [symmetric])
  then show ?thesis by (simp add: cmp)
qed

lemma str_nat_256: "str_nat 256 = ''256''"
  by (simp add: str_nat.simps char_of_def bit_iff_odd)

lemma upper_hx: "py_upper ''hx'' = ''HX''"
  by (simp add: py_upper_def less_eq_char_def char_of_def bit_iff_odd)

lemma split_date: "py_split CHR '','' ''2013-06-01,19:00:05'' = [''2013-06-01'', ''19:00:05'']"
  by simp

lemma fill_hx:
  "\<exists>md. fill_meta_data_all [channel_hx] meta_data_init = Inr md"
  by (simp add: fill_meta_data_def channel_hx_def py_index_def split_date str_int_def str_nat_256
      upper_hx dict_append_def dict_get_def meta_data_init_def ch_lowpass_dict_def
      ch_factor_def ch_gain_def)


lemma str_nat_2: "str_nat 2 = ''2''"
  by (simp add: str_nat.simps char_of_def bit_iff_odd)

lemma sorted_keys:
  "sort (map fst meta_data_init) =
   [''CH.ADCARDSN'', ''CH.CMP'', ''CH.EXTGAIN'', ''CH.FACTOR'', ''CH.GAIN'', ''CH.GDPSLOT'',
    ''CH.HIGHPASS'', ''CH.LENGTH'', ''CH.LOWPASS'', ''CH.NOTCH'', ''CH.NUMBER'', ''CH.NUNOM'',
    ''CH.SP'', ''CH.STATUS'', ''DATA.DATE0'', ''DATA.TIME0'', ''GDP.ADCARDSN'',
    ''GDP.ADCARDSND'', ''GDP.BAT'', ''GDP.CARDTYPE'', ''GDP.File'', ''GDP.HUMID'',
    ''GDP.NUMCARD'', ''GDP.SN'', ''GDP.TCARDSN'', ''GDP.TEMP'', ''JOB.BY'', ''JOB.FOR'',
    ''JOB.NAME'', ''JOB.NUMBER'', ''LENGTH.UNITS'', ''LINE.DIRECTION'', ''LINE.NAME'',
    ''LINE.NUMBER'', ''LINE.SPREAD'', ''RX.AZIMUTH'', ''RX.STN'', ''SURVEY.ACQMETHOD'',
    ''SURVEY.TYPE'', ''TS.ADFREQ'', ''TS.DECFAC'', ''TS.NCYCLE'', ''TS.NPNT'',
    ''TS.NWAVEFORM'', ''TX.AMP'', ''TX.DUTY'', ''TX.FREQ'', ''TX.SHUNT'', ''TX.SN,NONE'',
    ''TX.STN'']"
  unfolding meta_keys by (simp add: less_eq_char_def less_char_def)


lemma length_concat_replicate: "length (concat (replicate n xs)) = n * length xs"
  by (induction n) simp_all

lemma length_cal_data_of: "length (cal_data_of n) = 2207 + (n - 1) * 2174"
  by (simp add: cal_data_of_def cal_data1_def cal_data2_def cal_piece_def length_concat_replicate)

lemma write_cache_frames_ok:
  assumes rows: "\<forall>row \<in> set im. length row = n \<and> (\<forall>k \<in> set row. in_int32 k)"
    and b2: "in_int32 (int (length (meta_str_of (dict_set md ''TS.NPNT''
                (CHR '','' # str_nat (length im))))) + 2)"
    and b3: "in_int32 (int (length (cal_data_of n)) + 2)"
    and b4: "in_int32 (int (length im) * int n * 4 + 2)"
  shows "\<exists>cdata. write_cache_frames md n (map (map real_of_int) im) (length im) = Inr (cdata, [])
     \<and> int (length cdata) = 97 + int (length (meta_str_of (dict_set md ''TS.NPNT''
                (CHR '','' # str_nat (length im))))) + int (length (cal_data_of n))
           + 4 * (int (length im) * int n)"
proof -
  have "write_rows n (map (map real_of_int) im) [0..<length (map (map real_of_int) im)]
        = Inr (concat (map (\<lambda>row. concat (map (\<lambda>x. int32_bytes (py_trunc x)) row))
                 (map (map real_of_int) im)), [])"
    using rows by (intro write_rows_all) auto
  then have wr: "write_rows n (map (map real_of_int) im) [0..<length im]
        = Inr (concat (map int32_bytes (concat im)), [])"
    by (simp only: sample_bytes length_map)
  have rl: "\<forall>r \<in> set im. length r = n" using rows by simp
  have l: "int (length (concat (map int32_bytes (concat im)))) = 4 * (int (length im) * int n)"
    by (simp add: length_concat_int32_bytes length_concat_rows [OF rl])
  define meta_str where
    "meta_str = meta_str_of (dict_set md ''TS.NPNT'' (CHR '','' # str_nat (length im)))"
  define cdata where "cdata =
      int32_bytes nav_len @ int32_bytes cache_flag @ int16_bytes type_nav
      @ replicate (nat (nav_len - 2)) (CHR 0x00) @ int32_bytes nav_len
      @ (int32_bytes (int (length meta_str) + 2) @ int32_bytes cache_flag @ int16_bytes type_meta)
      @ meta_str @ int32_bytes (int (length meta_str) + 2)
      @ (int32_bytes (int (length (cal_data_of n)) + 2) @ int32_bytes cache_flag
         @ int16_bytes type_cal)
      @ py_slice_to (cal_data_of n) (-1) @ [CHR 0x0A]
      @ int32_bytes (int (length (cal_data_of n)) + 2)
      @ (int32_bytes (int (length im) * int n * 4 + 2) @ int32_bytes cache_flag
         @ int16_bytes type_ts)
      @ concat (map int32_bytes (concat im))
      @ int32_bytes (int (length im) * int n * 4 + 2)"
  have n43: "in_int32 nav_len" by (simp add: nav_len_def in_int32_def)
  have s1: "block_stamp nav_len type_nav
            = Inr (int32_bytes nav_len @ int32_bytes cache_flag @ int16_bytes type_nav)"
    using n43 by (simp add: block_stamp_eq_Inr type_nav_def)
  have e1: "pack_i nav_len = Inr (int32_bytes nav_len)"
    using n43 by (simp add: pack_i_def)
  have s2: "block_stamp (int (length meta_str) + 2) type_meta
            = Inr (int32_bytes (int (length meta_str) + 2) @ int32_bytes cache_flag
                   @ int16_bytes type_meta)"
    using b2 by (simp add: block_stamp_eq_Inr type_meta_def meta_str_def)
  have e2: "pack_i (int (length meta_str) + 2) = Inr (int32_bytes (int (length meta_str) + 2))"
    using b2 by (simp add: pack_i_def meta_str_def)
  have s3: "block_stamp (int (length (cal_data_of n)) + 2) type_cal
            = Inr (int32_bytes (int (length (cal_data_of n)) + 2) @ int32_bytes cache_flag
                   @ int16_bytes type_cal)"
    using b3 by (simp add: block_stamp_eq_Inr type_cal_def)
  have e3: "pack_i (int (length (cal_data_of n)) + 2)
            = Inr (int32_bytes (int (length (cal_data_of n)) + 2))"
    using b3 by (simp add: pack_i_def)
  have s4: "block_stamp (int (length im) * int n * 4 + 2) type_ts
            = Inr (int32_bytes (int (length im) * int n * 4 + 2) @ int32_bytes cache_flag
                   @ int16_bytes type_ts)"
    using b4 by (simp add: block_stamp_eq_Inr type_ts_def)
  have e4: "pack_i (int (length im) * int n * 4 + 2)
            = Inr (int32_bytes (int (length im) * int n * 4 + 2))"
    using b4 by (simp add: pack_i_def)
  have w: "write_cache_frames md n (map (map real_of_int) im) (length im) = Inr (cdata, [])"
    unfolding write_cache_frames_def Let_def meta_str_def [symmetric] s1 e1 s2 e2 s3 e3 s4 e4 wr
      bind_err_Inr prod.case cdata_def
    by simp
  have lcal: "length (py_slice_to (cal_data_of n) (-1)) + 1 = length (cal_data_of n)"
    using length_cal_payload [of n] by simp
  have "int (length cdata) = 97 + int (length meta_str) + int (length (cal_data_of n))
           + 4 * (int (length im) * int n)"
    unfolding cdata_def using l lcal by (simp add: nav_len_def)
  with w show ?thesis unfolding meta_str_def by blast
qed

lemma meta_hx:
  "\<exists>md. fill_meta_data_all [channel_hx] meta_data_init = Inr md
     \<and> length (meta_str_of (dict_set md ''TS.NPNT'' (CHR '','' # str_nat 2))) \<le> 5000"
  by (simp add: fill_meta_data_def channel_hx_def py_index_def split_date str_int_def str_nat_256
      upper_hx dict_append_def dict_get_def meta_data_init_def ch_lowpass_dict_def
      ch_factor_def ch_gain_def meta_str_of_def meta_line_def str_nat_2
      sorted_keys [unfolded meta_data_init_def, simplified])


lemma channel_hx_ok: "meta_text_ok channel_hx"
  by (simp add: meta_text_ok_def channel_hx_def)

theorem cache_round_trip_witness:
  "\<exists>md cdata c. fill_meta_data_all [channel_hx] meta_data_init = Inr md
     \<and> write_cache_frames md 1 [[7], [- 3]] 2 = Inr (cdata, [])
     \<and> read_cache cdata = Inr c \<and> ts c = [[7], [- 3]]
     \<and> map_option length (meta_data c ''CH.CMP'') = Some 1"
proof -
  from meta_hx obtain md where fill: "fill_meta_data_all [channel_hx] meta_data_init = Inr md"
    and ml: "length (meta_str_of (dict_set md ''TS.NPNT'' (CHR '','' # str_nat 2))) \<le> 5000"
    by blast
  have rows: "\<forall>row \<in> set [[7], [- 3 :: int]]. length row = length [channel_hx]
                \<and> (\<forall>k \<in> set row. in_int32 k)"
    by (simp add: in_int32_def)
  have l2: "length [[7], [- 3 :: int]] = 2" by simp
  have l1: "length [channel_hx] = 1" by simp
  have b2: "in_int32 (int (length (meta_str_of (dict_set md ''TS.NPNT''
                (CHR '','' # str_nat (length [[7], [- 3 :: int]]))))) + 2)"
    unfolding l2 using ml by (simp add: in_int32_def)
  have b3: "in_int32 (int (length (cal_data_of (length [channel_hx]))) + 2)"
    unfolding l1 by (simp add: in_int32_def length_cal_data_of)
  have b4: "in_int32 (int (length [[7], [- 3 :: int]]) * int (length [channel_hx]) * 4 + 2)"
    unfolding l1 l2 by (simp add: in_int32_def)
  from write_cache_frames_ok [OF rows b2 b3 b4, unfolded l2]
  obtain cdata where
    w0: "write_cache_frames md (length [channel_hx])
            (map (map real_of_int) [[7], [- 3]]) 2 = Inr (cdata, [])"
    and sz0: "int (length cdata) = 97 + int (length (meta_str_of (dict_set md ''TS.NPNT''
                (CHR '','' # str_nat 2))))
           + int (length (cal_data_of (length [channel_hx])))
           + 4 * (2 * int (length [channel_hx]))"
    by auto
  have w: "write_cache_frames md (length [channel_hx])
            (map (map real_of_int) [[7], [- 3]]) (length [[7], [- 3 :: int]]) = Inr (cdata, [])"
    unfolding l2 by (rule w0)
  have sz: "int (length cdata) \<le> 2147483651"
    unfolding sz0 l1 using ml by (simp add: length_cal_data_of)
  have w1: "write_cache_frames md 1 [[7], [- 3]] 2 = Inr (cdata, [])"
    using w0 by simp
  have ne: "[channel_hx] \<noteq> []" by simp
  have ok: "\<forall>zt \<in> set [channel_hx]. meta_text_ok zt" using channel_hx_ok by simp
  from cache_round_trip [OF fill ne ok rows w sz]
  obtain c where c: "read_cache cdata = Inr c" "ts c = [[7], [- 3]]"
    "map_option length (meta_data c ''CH.CMP'') = Some (length [channel_hx])"
    by blast
  have "map_option length (meta_data c ''CH.CMP'') = Some 1"
    using c(3) by simp
  with fill w1 c(1,2) show ?thesis by blast
qed

section \<open>Length fields that disagree, and sample counts that do not divide\<close>

lemma length_stamp_tail [simp]: "length (stamp_tail t) = 6"
  by (simp add: stamp_tail_def)

lemma length_int32_words: "length (int32_words s) = length s div 4"
  by (induction s rule: int32_words.induct) simp_all

lemma np_reshape_indivisible:
  assumes "length a mod k \<noteq> 0"
  shows "np_reshape a (length a div k) k = Inl ValueError"
proof -
  have "length a div k * k \<noteq> length a"
    using assms by (metis mod_mult_self1_is_0 mult.commute)
  then show ?thesis by (simp add: np_reshape_def)
qed

lemma np_reshape_divisible:
  assumes "length a mod k = 0"
  shows "\<exists>m. np_reshape a (length a div k) k = Inr m"
proof -
  have "k dvd length a" using assms by (rule mod_0_imp_dvd)
  then have "length a div k * k = length a" by (rule dvd_div_mult_self)
  then show ?thesis by (simp add: np_reshape_def)
qed

lemma cache_of_read:
  assumes m: "int (length meta) \<le> 1000" and p: "int (length payload) \<le> 1000"
    and t: "length trailer = 4"
  shows "read_cache (cache_of meta payload trailer) =
      bind_err (np_fromstring_int32 payload) (\<lambda>flat.
      bind_err (case parse_meta meta ''CH.CMP'' of None \<Rightarrow> Inl KeyError
                | Some cmp \<Rightarrow> Inr (length cmp)) (\<lambda>num_chn.
      bind_err (np_reshape flat (length flat div num_chn) num_chn) (\<lambda>samples.
      if trailer \<noteq> int32_bytes (int (length payload) + 2) then Inl IOError
      else Inr \<lparr>nav_data = np_fromstring_int8 (replicate 41 (CHR 0x00)),
                meta_data = parse_meta meta, cal_data = ''c'', ts = samples\<rparr>)))"
proof -
  have f1: "framed (int32_bytes 43) (stamp_tail type_nav) (replicate 41 (CHR 0x00))
              (int32_bytes 43)"
    using framed_int32_bytes [of "replicate 41 (CHR 0x00)" "stamp_tail type_nav"]
    by (simp add: in_int32_def)
  have f2: "framed (int32_bytes (int (length meta) + 2)) (stamp_tail type_meta) meta
              (int32_bytes (int (length meta) + 2))"
    using m by (intro framed_int32_bytes) (simp_all add: in_int32_def)
  have f3: "framed (int32_bytes 3) (stamp_tail type_cal) ''c'' (int32_bytes 3)"
    using framed_int32_bytes [of "''c''" "stamp_tail type_cal"]
    by (simp add: in_int32_def)
  have f4: "framed (int32_bytes (int (length payload) + 2)) (stamp_tail type_ts) payload trailer"
    using p t by (simp add: framed_def int32_words_bytes_single wrap_int32_id in_int32_def)
  have cd: "cache_of meta payload trailer =
     frame (int32_bytes 43) (stamp_tail type_nav) (replicate 41 (CHR 0x00)) (int32_bytes 43)
     @ frame (int32_bytes (int (length meta) + 2)) (stamp_tail type_meta) meta
         (int32_bytes (int (length meta) + 2))
     @ frame (int32_bytes 3) (stamp_tail type_cal) ''c'' (int32_bytes 3)
     @ frame (int32_bytes (int (length payload) + 2)) (stamp_tail type_ts) payload trailer @ []"
    by (simp add: cache_of_def)
  have sz: "int (length (cache_of meta payload trailer)) \<le> 2147483651"
    using m p t by (simp add: cache_of_def frame_def)
  show ?thesis
    unfolding read_cache_framed [OF f1 f2 f3 f4 cd sz] by simp
qed

lemma meta_hx_hy:
  "parse_meta (''CH.CMP,HX,HY'' @ [CHR 0x0A]) ''CH.CMP'' = Some [''HX'', ''HY'']"
  by (simp add: parse_meta_def parse_meta_line_def py_find_def py_slice_def py_slice_from_def
      slice_bound_def)

lemma meta_npnt:
  "parse_meta (''TS.NPNT,1'' @ [CHR 0x0A]) ''CH.CMP'' = None"
  by (simp add: parse_meta_def parse_meta_line_def py_find_def py_slice_def py_slice_from_def
      slice_bound_def)

text \<open>
  C2 (as stated, refuted): in this file the trailing length field of the block of
  samples (11) disagrees with the leading one (10), and the metadata block has no line
  \<open>CH.CMP\<close>. \<open>read_cache\<close> looks the channel components up before it compares
  the two fields of the last block, and fails with KeyError, not with the IOError of
  a length mismatch.
\<close>

theorem read_cache_key_error_counterexample:
  "read_cache (cache_of (''TS.NPNT,1'' @ [CHR 0x0A]) (int32_bytes 1 @ int32_bytes 2)
      (int32_bytes 11)) = Inl KeyError"
proof -
  have "read_cache (cache_of (''TS.NPNT,1'' @ [CHR 0x0A]) (int32_bytes 1 @ int32_bytes 2)
      (int32_bytes 11)) =
      bind_err (np_fromstring_int32 (int32_bytes 1 @ int32_bytes 2)) (\<lambda>flat.
      bind_err (case parse_meta (''TS.NPNT,1'' @ [CHR 0x0A]) ''CH.CMP'' of None \<Rightarrow> Inl KeyError
                | Some cmp \<Rightarrow> Inr (length cmp)) (\<lambda>num_chn.
      bind_err (np_reshape flat (length flat div num_chn) num_chn) (\<lambda>samples.
      if int32_bytes 11 \<noteq> int32_bytes (int (length (int32_bytes 1 @ int32_bytes 2)) + 2)
      then Inl IOError
      else Inr \<lparr>nav_data = np_fromstring_int8 (replicate 41 (CHR 0x00)),
                meta_data = parse_meta (''TS.NPNT,1'' @ [CHR 0x0A]), cal_data = ''c'',
                ts = samples\<rparr>)))"
    by (rule cache_of_read) simp_all
  then show ?thesis
    by (simp add: meta_npnt [simplified] np_fromstring_int32_def)
qed

text \<open>
  C2 (amended): for a file of four blocks, of at most \<open>2\<^sup>3\<^sup>1 + 3\<close> bytes, whose
  metadata block has a line \<open>CH.CMP\<close>: when the trailing length field of some block
  differs from the leading one, \<open>read_cache\<close> fails. It raises the IOError of a
  length mismatch, except when the first three blocks agree and the payload of the
  block of samples is itself malformed (not a whole number of 32-bit words, or a
  number of words that the number of channel components does not divide): then the
  ValueError of the decoding is raised before the lengths are compared. In particular
  a change of any trailing field of a file that was read successfully gives IOError.
\<close>

theorem read_cache_length_mismatch:
  assumes f1: "framed h1 g1 p1 e1" and f2: "framed h2 g2 p2 e2"
    and f3: "framed h3 g3 p3 e3" and f4: "framed h4 g4 p4 e4"
    and cd: "cdata = frame h1 g1 p1 e1 @ frame h2 g2 p2 e2 @ frame h3 g3 p3 e3
                     @ frame h4 g4 p4 e4 @ rest"
    and sz: "int (length cdata) \<le> 2147483651"
    and mismatch: "e1 \<noteq> h1 \<or> e2 \<noteq> h2 \<or> e3 \<noteq> h3 \<or> e4 \<noteq> h4"
    and cmp: "parse_meta p2 ''CH.CMP'' = Some cmp"
  shows "read_cache cdata = Inl IOError
         \<or> (e1 = h1 \<and> e2 = h2 \<and> e3 = h3 \<and> read_cache cdata = Inl ValueError
            \<and> (length p4 mod 4 \<noteq> 0 \<or> (length p4 div 4) mod length cmp \<noteq> 0))"
proof (cases "e1 \<noteq> h1 \<or> e2 \<noteq> h2 \<or> e3 \<noteq> h3")
  case True
  then show ?thesis unfolding read_cache_framed [OF f1 f2 f3 f4 cd sz] by simp
next
  case False
  then have e: "e1 = h1" "e2 = h2" "e3 = h3" and e4: "e4 \<noteq> h4" using mismatch by auto
  show ?thesis
  proof (cases "length p4 mod 4 = 0")
    case p: True
    show ?thesis
    proof (cases "(length p4 div 4) mod length cmp = 0")
      case True
      then have "length (int32_words p4) mod length cmp = 0" by (simp add: length_int32_words)
      from np_reshape_divisible [OF this] obtain m where
        "np_reshape (int32_words p4) (length (int32_words p4) div length cmp) (length cmp) = Inr m"
        by blast
      then have "read_cache cdata = Inl IOError"
        unfolding read_cache_framed [OF f1 f2 f3 f4 cd sz]
        using e e4 p by (simp add: cmp np_fromstring_int32_def)
      then show ?thesis by simp
    next
      case False
      then have "length (int32_words p4) mod length cmp \<noteq> 0" by (simp add: length_int32_words)
      from np_reshape_indivisible [OF this]
      have "read_cache cdata = Inl ValueError"
        unfolding read_cache_framed [OF f1 f2 f3 f4 cd sz]
        using e p by (simp add: cmp np_fromstring_int32_def)
      then show ?thesis using e False by simp
    qed
  next
    case False
    then have "read_cache cdata = Inl ValueError"
      unfolding read_cache_framed [OF f1 f2 f3 f4 cd sz]
      using e by (simp add: np_fromstring_int32_def)
    then show ?thesis using e False by simp
  qed
qed

text \<open>
  C9: for a file of four blocks, of at most \<open>2\<^sup>3\<^sup>1 + 3\<close> bytes, whose payload of
  samples is a whole number of 32-bit words that the number of channel components of
  the line \<open>CH.CMP\<close> does not divide, \<open>read_cache\<close> fails and returns no data:
  with the ValueError of \<open>reshape\<close> when the first three blocks pass their length
  tests, and with the IOError of a length mismatch otherwise. Both are the format
  integrity failure of the reader.
\<close>

theorem read_cache_indivisible:
  assumes f1: "framed h1 g1 p1 e1" and f2: "framed h2 g2 p2 e2"
    and f3: "framed h3 g3 p3 e3" and f4: "framed h4 g4 p4 e4"
    and cd: "cdata = frame h1 g1 p1 e1 @ frame h2 g2 p2 e2 @ frame h3 g3 p3 e3
                     @ frame h4 g4 p4 e4 @ rest"
    and sz: "int (length cdata) \<le> 2147483651"
    and cmp: "parse_meta p2 ''CH.CMP'' = Some cmp"
    and words: "length p4 mod 4 = 0"
    and indivisible: "(length p4 div 4) mod length cmp \<noteq> 0"
  shows "read_cache cdata =
           (if e1 \<noteq> h1 \<or> e2 \<noteq> h2 \<or> e3 \<noteq> h3 then Inl IOError else Inl ValueError)"
proof -
  have "length (int32_words p4) mod length cmp \<noteq> 0"
    using indivisible by (simp add: length_int32_words)
  from np_reshape_indivisible [OF this] show ?thesis
    unfolding read_cache_framed [OF f1 f2 f3 f4 cd sz]
    using words by (simp add: cmp np_fromstring_int32_def)
qed

lemma cache_of_framed:
  assumes m: "int (length meta) \<le> 1000" and p: "int (length payload) \<le> 1000"
    and t: "length trailer = 4"
  shows "framed (int32_bytes 43) (stamp_tail type_nav) (replicate 41 (CHR 0x00)) (int32_bytes 43)"
    and "framed (int32_bytes (int (length meta) + 2)) (stamp_tail type_meta) meta
              (int32_bytes (int (length meta) + 2))"
    and "framed (int32_bytes 3) (stamp_tail type_cal) ''c'' (int32_bytes 3)"
    and "framed (int32_bytes (int (length payload) + 2)) (stamp_tail type_ts) payload trailer"
    and "cache_of meta payload trailer =
     frame (int32_bytes 43) (stamp_tail type_nav) (replicate 41 (CHR 0x00)) (int32_bytes 43)
     @ frame (int32_bytes (int (length meta) + 2)) (stamp_tail type_meta) meta
         (int32_bytes (int (length meta) + 2))
     @ frame (int32_bytes 3) (stamp_tail type_cal) ''c'' (int32_bytes 3)
     @ frame (int32_bytes (int (length payload) + 2)) (stamp_tail type_ts) payload trailer @ []"
    and "int (length (cache_of meta payload trailer)) \<le> 2147483651"
proof -
  show "framed (int32_bytes 43) (stamp_tail type_nav) (replicate 41 (CHR 0x00)) (int32_bytes 43)"
    using framed_int32_bytes [of "replicate 41 (CHR 0x00)" "stamp_tail type_nav"]
    by (simp add: in_int32_def)
  show "framed (int32_bytes (int (length meta) + 2)) (stamp_tail type_meta) meta
              (int32_bytes (int (length meta) + 2))"
    using m by (intro framed_int32_bytes) (simp_all add: in_int32_def)
  show "framed (int32_bytes 3) (stamp_tail type_cal) ''c'' (int32_bytes 3)"
    using framed_int32_bytes [of "''c''" "stamp_tail type_cal"]
    by (simp add: in_int32_def)
  show "framed (int32_bytes (int (length payload) + 2)) (stamp_tail type_ts) payload trailer"
    using p t by (simp add: framed_def int32_words_bytes_single wrap_int32_id in_int32_def)
  show "cache_of meta payload trailer =
     frame (int32_bytes 43) (stamp_tail type_nav) (replicate 41 (CHR 0x00)) (int32_bytes 43)
     @ frame (int32_bytes (int (length meta) + 2)) (stamp_tail type_meta) meta
         (int32_bytes (int (length meta) + 2))
     @ frame (int32_bytes 3) (stamp_tail type_cal) ''c'' (int32_bytes 3)
     @ frame (int32_bytes (int (length payload) + 2)) (stamp_tail type_ts) payload trailer @ []"
    by (simp add: cache_of_def)
  show "int (length (cache_of meta payload trailer)) \<le> 2147483651"
    using m p t by (simp add: cache_of_def frame_def)
qed

lemma int32_bytes_neq:
  assumes "in_int32 a" "in_int32 b" "a \<noteq> b"
  shows "int32_bytes a \<noteq> int32_bytes b"
proof
  assume "int32_bytes a = int32_bytes b"
  then have "int32_words (int32_bytes a) = int32_words (int32_bytes b)" by simp
  then show False using assms by (simp add: int32_words_bytes_single wrap_int32_id)
qed

theorem read_cache_length_mismatch_witness:
  "read_cache (cache_of (''CH.CMP,HX,HY'' @ [CHR 0x0A])
      (int32_bytes 1 @ int32_bytes 2 @ int32_bytes 3 @ int32_bytes 4) (int32_bytes 19))
   = Inl IOError"
proof -
  define meta where "meta = ''CH.CMP,HX,HY'' @ [CHR 0x0A]"
  define payload where "payload = int32_bytes 1 @ int32_bytes 2 @ int32_bytes 3 @ int32_bytes 4"
  have m: "int (length meta) \<le> 1000" by (simp add: meta_def)
  have p: "int (length payload) \<le> 1000" by (simp add: payload_def)
  have t: "length (int32_bytes 19) = 4" by simp
  note f = cache_of_framed [OF m p t]
  have lp: "length payload = 16" by (simp add: payload_def)
  have "int32_bytes 19 \<noteq> int32_bytes 18"
    by (rule int32_bytes_neq) (simp_all add: in_int32_def)
  then have mismatch: "int32_bytes 43 \<noteq> int32_bytes 43
      \<or> int32_bytes (int (length meta) + 2) \<noteq> int32_bytes (int (length meta) + 2)
      \<or> int32_bytes 3 \<noteq> int32_bytes 3
      \<or> int32_bytes 19 \<noteq> int32_bytes (int (length payload) + 2)"
    by (simp add: lp)
  have cmp: "parse_meta meta ''CH.CMP'' = Some [''HX'', ''HY'']"
    unfolding meta_def by (rule meta_hx_hy)
  have l2: "length [''HX'', ''HY''] = 2" by simp
  from read_cache_length_mismatch [OF f(1) f(2) f(3) f(4) f(5) f(6) mismatch cmp]
  have "read_cache (cache_of meta payload (int32_bytes 19)) = Inl IOError"
    unfolding l2 lp by simp
  then show ?thesis by (simp only: meta_def payload_def)
qed

theorem read_cache_indivisible_witness:
  "read_cache (cache_of (''CH.CMP,HX,HY'' @ [CHR 0x0A])
      (int32_bytes 1 @ int32_bytes 2 @ int32_bytes 3) (int32_bytes 14))
   = Inl ValueError"
proof -
  define meta where "meta = ''CH.CMP,HX,HY'' @ [CHR 0x0A]"
  define payload where "payload = int32_bytes 1 @ int32_bytes 2 @ int32_bytes 3"
  have m: "int (length meta) \<le> 1000" by (simp add: meta_def)
  have p: "int (length payload) \<le> 1000" by (simp add: payload_def)
  have t: "length (int32_bytes 14) = 4" by simp
  note f = cache_of_framed [OF m p t]
  have lp: "length payload = 12" by (simp add: payload_def)
  have cmp: "parse_meta meta ''CH.CMP'' = Some [''HX'', ''HY'']"
    unfolding meta_def by (rule meta_hx_hy)
  have words: "length payload mod 4 = 0" by (simp add: lp)
  have l2: "length [''HX'', ''HY''] = 2" by simp
  have indivisible: "(length payload div 4) mod length [''HX'', ''HY''] \<noteq> 0"
    unfolding l2 lp by simp
  from read_cache_indivisible [OF f(1) f(2) f(3) f(4) f(5) f(6) cmp words indivisible]
  have "read_cache (cache_of meta payload (int32_bytes 14)) = Inl ValueError"
    by simp
  then show ?thesis by (simp only: meta_def payload_def)
qed

section \<open>Samples outside the 32-bit range\<close>

lemma str_nat_digit: "n < 10 \<Longrightarrow> str_nat n = [char_of (48 + n)]"
  by (simp add: str_nat.simps)

lemma py_trunc_sign: "py_trunc 1 = 1" "py_trunc (- 1) = - 1"
  using py_trunc_of_int [of 1] py_trunc_of_int [of "- 1"] by simp_all

lemma int32_bytes_sign:
  "int32_bytes 1 = [CHR 0x01, CHR 0x00, CHR 0x00, CHR 0x00]"
  "int32_bytes (- 1) = [CHR 0xFF, CHR 0xFF, CHR 0xFF, CHR 0xFF]"
  by (simp_all add: int32_bytes_def char_of_def bit_iff_odd)

lemma clip_value_large:
  "clip_value zz nn 3000000000 = Inr (int32_bytes 1, [clip_message nn zz])"
  "clip_value zz nn (- 3000000000) = Inr (int32_bytes (- 1), [clip_message nn zz])"
  by (simp_all add: clip_value_def py_trunc_sign pack_i_def in_int32_def)

lemma clip_messages:
  "clip_message 0 0 = ''had to clip number for 0 at point 0''"
  "clip_message 0 (Suc 0) = ''had to clip number for 0 at point 1''"
  by (simp_all add: clip_message_def str_nat.simps [of 0] str_nat.simps [of "Suc 0"]
      char_of_def bit_iff_odd)




section \<open>The stamp decoder\<close>

text \<open>
  C7 (as stated, refuted): at offset 3 of a buffer of three bytes no byte remains, fewer
  than the 36 of a stamp. \<open>np.fromstring\<close> makes an empty array of the empty string
  without an error, the tests of the five loops are false of it, and the method returns
  the empty array with the offset: it does not report a stamp that is not complete.
\<close>

theorem get_gps_stamp_empty_counterexample:
  "get_gps_stamp ''abc'' 3 = Some (Inr (Some [], 3))"
  by (simp add: get_gps_stamp_def read_stamp_def np_fromstring_stamp_def py_slice_def
      slice_bound_def stamp_len_def convert_time_def array_truth_def then_rescan_def rescan.simps)

text \<open>
  C7 (amended): when the offset lies in the buffer and at least one byte but fewer than 36
  bytes remain from it, \<open>get_gps_stamp\<close> returns at once, through its handler of
  ValueError, which prints that the stamp is not complete: no stamp (\<open>None\<close>) and
  the offset it was given.
\<close>

theorem get_gps_stamp_truncated:
  assumes "0 \<le> i" "i < int (length raw_data)" "int (length raw_data) - i < 36"
  shows "get_gps_stamp raw_data i = Some (Inr (None, i))"
proof -
  have "length (py_slice raw_data i (i + stamp_len)) = nat (int (length raw_data) - i)"
    using assms by (simp add: py_slice_def slice_bound_def stamp_len_def)
  then have "length (py_slice raw_data i (i + stamp_len)) mod 36 \<noteq> 0"
    using assms by simp
  then have "read_stamp raw_data i = Inl ValueError"
    by (simp add: read_stamp_def np_fromstring_stamp_def)
  then show ?thesis
    by (simp add: get_gps_stamp_def then_rescan_def)
qed

theorem get_gps_stamp_truncated_witness:
  "get_gps_stamp (gps_stamp @ ''12345'') 0 = Some (Inr (None, 0))"
  using get_gps_stamp_truncated [of 0 "gps_stamp @ ''12345''"] by (simp add: gps_stamp_def)

section \<open>The search for the first stamp\<close>

lemma start_loop_exit:
  assumes "start_loop sd utc_text raw_data week st = Inr st'"
    and "s1 st < sd \<or> sd \<le> 0" "0 \<le> s1 st"
  shows "(start_test st' = start_dt st' \<or> time_stop st' > sd \<or> sd \<le> 0)
         \<and> time_stop st \<le> time_stop st'"
  using assms
proof (induction sd utc_text raw_data week st rule: start_loop.induct)
  case (1 sd utc_text raw_data week st)
  show ?case
  proof (cases "start_test st \<noteq> start_dt st \<and> s1 st \<le> sd \<and> time_stop st \<le> sd")
    case False
    have "start_loop sd utc_text raw_data week st = Inr st"
      using False by (subst start_loop.simps) auto
    then have "st' = st" using "1.prems"(1) by simp
    then show ?thesis using False "1.prems"(2,3) by auto
  next
    case True
    have unf: "start_loop sd utc_text raw_data week st =
        (case probe utc_text raw_data week (Some (gps0 st + 7)) of
           Inl e \<Rightarrow> Inl e
         | Inr (g, info, test) \<Rightarrow>
             if s1 st + 1 = sd then
               (case py_int_of_str (py_slice_from (start_dt st) (- 2)) of
                  Inl e \<Rightarrow> Inl e
                | Inr sec \<Rightarrow>
                    (case get_gps_stamp_location raw_data None of
                       Inl e \<Rightarrow> Inl e
                     | Inr g0 \<Rightarrow>
                         start_loop sd utc_text raw_data week
                           \<lparr>s1 = 0, gps0 = g0, gps_info = info, start_test = test,
                            start_dt = py_slice_to (start_dt st) (- 2) @ format_02 (sec + 1),
                            time_stop = time_stop st + 1\<rparr>))
             else
               start_loop sd utc_text raw_data week
                 \<lparr>s1 = s1 st + 1, gps0 = g, gps_info = info, start_test = test,
                  start_dt = start_dt st, time_stop = time_stop st\<rparr>)"
      using True by (subst start_loop.simps) simp
    from "1.prems"(1) obtain g info test where
      p: "probe utc_text raw_data week (Some (gps0 st + 7)) = Inr (g, info, test)"
      unfolding unf by (auto split: sum.splits)
    show ?thesis
    proof (cases "s1 st + 1 = sd")
      case r: True
      from "1.prems"(1) p r obtain sec g0 where
        sec: "py_int_of_str (py_slice_from (start_dt st) (- 2)) = Inr sec"
        and g0: "get_gps_stamp_location raw_data None = Inr g0"
        and rec: "start_loop sd utc_text raw_data week
                           \<lparr>s1 = 0, gps0 = g0, gps_info = info, start_test = test,
                            start_dt = py_slice_to (start_dt st) (- 2) @ format_02 (sec + 1),
                            time_stop = time_stop st + 1\<rparr> = Inr st'"
        unfolding unf by (auto split: sum.splits)
      have "(start_test st' = start_dt st' \<or> time_stop st' > sd \<or> sd \<le> 0)
         \<and> time_stop st + 1 \<le> time_stop st'"
        using "1.IH"(1) [OF True p refl refl r sec g0 rec] r "1.prems"(3)
        by auto
      then show ?thesis by auto
    next
      case r: False
      from "1.prems"(1) p r have
        rec: "start_loop sd utc_text raw_data week
                 \<lparr>s1 = s1 st + 1, gps0 = g, gps_info = info, start_test = test,
                  start_dt = start_dt st, time_stop = time_stop st\<rparr> = Inr st'"
        unfolding unf by (auto split: sum.splits)
      have "(start_test st' = start_dt st' \<or> time_stop st' > sd \<or> sd \<le> 0)
         \<and> time_stop st \<le> time_stop st'"
        using "1.IH"(2) [OF True p refl refl r rec] r "1.prems"(2,3) True
        by auto
      then show ?thesis by auto
    qed
  qed
qed



lemma replicate_28: "replicate 28 c =
   [c, c, c, c, c, c, c, c, c, c, c, c, c, c, c, c, c, c, c, c, c, c, c, c, c, c, c, c]"
  by (simp add: numeral_eq_Suc)

lemma raw2_bytes: "raw2 =
   [CHR 0xFF, CHR 0xFF, CHR 0xFF, CHR 0xFF, CHR 0x00, CHR 0x90, CHR 0x01, CHR 0x00,
    CHR 0x00, CHR 0x00, CHR 0x00, CHR 0x00, CHR 0x00, CHR 0x00, CHR 0x00, CHR 0x00,
    CHR 0x00, CHR 0x00, CHR 0x00, CHR 0x00, CHR 0x00, CHR 0x00, CHR 0x00, CHR 0x00,
    CHR 0x00, CHR 0x00, CHR 0x00, CHR 0x00, CHR 0x00, CHR 0x00, CHR 0x00, CHR 0x00,
    CHR 0x00, CHR 0x00, CHR 0x00, CHR 0x00,
    CHR 0xFF, CHR 0xFF, CHR 0xFF, CHR 0xFF, CHR 0x00, CHR 0x94, CHR 0x01, CHR 0x00,
    CHR 0x00, CHR 0x00, CHR 0x00, CHR 0x00, CHR 0x00, CHR 0x00, CHR 0x00, CHR 0x00,
    CHR 0x00, CHR 0x00, CHR 0x00, CHR 0x00, CHR 0x00, CHR 0x00, CHR 0x00, CHR 0x00,
    CHR 0x00, CHR 0x00, CHR 0x00, CHR 0x00, CHR 0x00, CHR 0x00, CHR 0x00, CHR 0x00,
    CHR 0x00, CHR 0x00, CHR 0x00, CHR 0x00]"
  by (simp add: raw2_def stamp_bytes_def gps_stamp_def int32_bytes_def char_of_def bit_iff_odd
      replicate_28)

lemma loc0: "get_gps_stamp_location raw2 None = Inr 0"
  unfolding raw2_bytes
  by (simp add: get_gps_stamp_location_def py_find_def py_index_def gps_stamp_def)

lemma loc7: "get_gps_stamp_location raw2 (Some 7) = Inr 36"
  unfolding raw2_bytes
  by (simp add: get_gps_stamp_location_def py_find_def py_index_def gps_stamp_def)


lemmas probe_defs = probe_def 
  np_fromstring_stamp_def py_slice_def slice_bound_def stamp_len_def convert_time_def
  array_truth_def round_f32_def f32_quantum_def wrap_int32_def get_gps_time_def
  get_gps_time_locals_def week_len_def py_trunc_def get_date_time_def gps_epoch_seconds_def
  leap_seconds_def stamp_of_def int32_of4_def

lemma probe_first:
  "\<exists>info. probe (\<lambda>s. Inr (str_int s)) raw2 0 None = Inr (0, info, str_int 315964884)"
  unfolding probe_def loc0
  by (simp add: raw2_bytes probe_defs)

lemma probe_next:
  "\<exists>info. probe (\<lambda>s. Inr (str_int s)) raw2 0 (Some 7) = Inr (36, info, str_int 315964885)"
  unfolding probe_def loc7
  by (simp add: raw2_bytes probe_defs)


lemma texts: "str_int 315964884 = ''315964884''" "str_int 315964885 = ''315964885''"
  by (simp_all add: str_int_def str_nat.simps char_of_def bit_iff_odd)

lemma nudges:
  "py_int_of_str (py_slice_from ''2013-06-01,19:00:05'' (- 2)) = Inr 5"
  "py_slice_to ''2013-06-01,19:00:05'' (- 2) @ format_02 (5 + 1) = ''2013-06-01,19:00:06''"
  "py_int_of_str (py_slice_from ''2013-06-01,19:00:06'' (- 2)) = Inr 6"
  "py_slice_to ''2013-06-01,19:00:06'' (- 2) @ format_02 (6 + 1) = ''2013-06-01,19:00:07''"
  by (simp_all add: py_int_of_str_def py_slice_from_def py_slice_to_def slice_bound_def
      py_strip_def is_space_def is_digit_def digits_value_def format_02_def str_int_def
      str_nat.simps char_of_def bit_iff_odd less_eq_char_def)


section \<open>The samples between the stamps\<close>

lemma nz_append [simp]: "nz (a @ b) = nz a + nz b"
  by (simp add: nz_def)

lemma nz_take_drop: "nz (take lo a) + nz (drop (lo + n) a) \<le> nz a"
proof -
  have "a = take lo a @ take n (drop lo a) @ drop (lo + n) a"
    by (metis append_take_drop_id drop_drop add.commute)
  then have "nz a = nz (take lo a) + nz (take n (drop lo a)) + nz (drop (lo + n) a)"
    by (metis nz_append add.assoc)
  then show ?thesis by simp
qed

lemma assign_slice_nz:
  assumes "assign_slice a i j vals = Inr a'"
    and "length vals = 1 \<longrightarrow> slice_bound j (length a) - slice_bound i (length a) \<le> 1"
  shows "nz a' \<le> nz a + nz vals"
proof -
  define lo where "lo = slice_bound i (length a)"
  define n where "n = slice_bound j (length a) - lo"
  show ?thesis
  proof (cases "length vals = n")
    case True
    then have "a' = take lo a @ vals @ drop (lo + n) a"
      using assms(1) by (simp add: assign_slice_def lo_def n_def Let_def)
    then show ?thesis using nz_take_drop [of lo a n] by simp
  next
    case False
    then have l1: "length vals = 1"
      and a': "a' = take lo a @ replicate n (hd vals) @ drop (lo + n) a"
      using assms(1) by (auto simp: assign_slice_def lo_def n_def Let_def split: if_splits)
    from l1 assms(2) have "n \<le> 1" by (simp add: n_def lo_def)
    with False l1 have "n = 0" by simp
    then show ?thesis using a' nz_take_drop [of lo a 0] by simp
  qed
qed

lemma round_f32_0 [simp]: "round_f32 0 = 0"
  by (simp add: round_f32_def)

lemma nz_map_round:
  "nz (map (\<lambda>x. real_of_int (round_f32 x)) w) \<le> length (filter (\<lambda>x. x \<noteq> 0) w)"
proof (induction w)
  case Nil
  then show ?case by (simp add: nz_def)
next
  case (Cons x w)
  then show ?case by (cases "x = 0") (simp_all add: nz_def)
qed


lemma one_word_width:
  assumes w: "length (py_slice raw_data (kk + stamp_len) nxt) = 4"
    and kk: "0 \<le> kk" and nxt: "0 \<le> nxt" "nxt \<le> int (length raw_data)"
    and d: "0 \<le> df_int"
  shows "slice_bound ((int ll + 1) * df_int + ((nxt - (kk + stamp_len)) - df_int * 4) div 4) m
           - slice_bound (int ll * df_int) m \<le> 1"
proof -
  have "nxt - (kk + stamp_len) = 4"
  proof -
    have "length (py_slice raw_data (kk + stamp_len) nxt)
          = min (nat nxt) (length raw_data) - min (nat (kk + 36)) (length raw_data)"
      using kk nxt by (simp add: py_slice_def slice_bound_def stamp_len_def Let_def)
    then have "min (nat nxt) (length raw_data) - min (nat (kk + 36)) (length raw_data) = 4"
      using w by simp
    then show ?thesis using kk nxt by (simp add: stamp_len_def min_def split: if_splits)
  qed
  then have "((nxt - (kk + stamp_len)) - df_int * 4) div 4 = 1 - df_int"
    by simp
  then have e: "(int ll + 1) * df_int + ((nxt - (kk + stamp_len)) - df_int * 4) div 4
             = int ll * df_int + 1"
    by (simp add: algebra_simps)
  define v where "v = int ll * df_int"
  have v: "0 \<le> v" using d by (simp add: v_def)
  then have "nat (v + 1) = Suc (nat v)" by simp
  then have "slice_bound (v + 1) m - slice_bound v m \<le> 1"
    using v by (simp add: slice_bound_def min_def)
  then show ?thesis unfolding e v_def .
qed

lemma fill_data_nz:
  assumes "fill_data raw_data df_int bl a = Some (Inr a')"
    and "0 \<le> df_int"
    and "\<forall>(ll, kk, nxt) \<in> set bl. 0 \<le> kk \<and> 0 \<le> nxt \<and> nxt \<le> int (length raw_data)"
  shows "nz a' \<le> nz a + length (filter (\<lambda>x. x \<noteq> 0) (words_of raw_data bl))"
  using assms
proof (induction bl arbitrary: a)
  case Nil
  then show ?case by (simp add: words_of_def)
next
  case (Cons b bl)
  obtain ll kk nxt where b: "b = (ll, kk, nxt)" by (cases b)
  define s where "s = py_slice raw_data (kk + stamp_len) nxt"
  define pdiff where "pdiff = ((nxt - (kk + stamp_len)) - df_int * 4) div 4"
  have rest: "\<forall>(ll, kk, nxt) \<in> set bl. 0 \<le> kk \<and> 0 \<le> nxt \<and> nxt \<le> int (length raw_data)"
    using Cons.prems(3) by simp
  have pos: "0 \<le> kk" "0 \<le> nxt" "nxt \<le> int (length raw_data)"
    using Cons.prems(3) b by simp_all
  have w: "words_of raw_data (b # bl) = int32_words s @ words_of raw_data bl"
    by (simp add: words_of_def b s_def)
  have skip: "nz a' \<le> nz a + length (filter (\<lambda>x. x \<noteq> 0) (words_of raw_data (b # bl)))"
    if "fill_data raw_data df_int bl a = Some (Inr a')"
    using Cons.IH [OF that Cons.prems(2) rest] by (simp add: w)
  show ?case
  proof (cases "np_fromstring_int32 s")
    case (Inl e)
    then have "e = ValueError" by (simp add: np_fromstring_int32_def split: if_splits)
    then have "fill_data raw_data df_int bl a = Some (Inr a')"
      using Cons.prems(1) Inl
      by (simp add: b s_def [symmetric] split: option.splits sum.splits)
    then show ?thesis by (rule skip)
  next
    case (Inr ws)
    then have ws: "ws = int32_words s" and m4: "length s mod 4 = 0"
      by (simp_all add: np_fromstring_int32_def split: if_splits)
    show ?thesis
    proof (cases "assign_slice a (int ll * df_int) ((int ll + 1) * df_int + pdiff)
                    (map (\<lambda>x. real_of_int (round_f32 x)) ws)")
      case e: (Inl e)
      then have "e = ValueError" by (simp add: assign_slice_def Let_def split: if_splits)
      then have "fill_data raw_data df_int bl a = Some (Inr a')"
        using Cons.prems(1) Inr e
        by (simp add: b s_def [symmetric] pdiff_def [symmetric] split: option.splits sum.splits)
      then show ?thesis by (rule skip)
    next
      case a1: (Inr a1)
      then have f: "fill_data raw_data df_int bl a1 = Some (Inr a')"
        using Cons.prems(1) Inr
        by (simp add: b s_def [symmetric] pdiff_def [symmetric])
      have one: "length (map (\<lambda>x. real_of_int (round_f32 x)) ws) = 1 \<longrightarrow>
          slice_bound ((int ll + 1) * df_int + pdiff) (length a)
            - slice_bound (int ll * df_int) (length a) \<le> 1"
      proof
        assume "length (map (\<lambda>x. real_of_int (round_f32 x)) ws) = 1"
        then have "length s div 4 = 1" by (simp add: ws length_int32_words)
        with m4 have "length s = 4" by presburger
        then show "slice_bound ((int ll + 1) * df_int + pdiff) (length a)
            - slice_bound (int ll * df_int) (length a) \<le> 1"
          unfolding pdiff_def s_def using pos Cons.prems(2) by (intro one_word_width)
      qed
      have "nz a1 \<le> nz a + nz (map (\<lambda>x. real_of_int (round_f32 x)) ws)"
        using a1 one by (rule assign_slice_nz)
      also have "\<dots> \<le> nz a + length (filter (\<lambda>x. x \<noteq> 0) ws)"
        using nz_map_round [of ws] by simp
      finally have 1: "nz a1 \<le> nz a + length (filter (\<lambda>x. x \<noteq> 0) (int32_words s))"
        by (simp add: ws)
      have "nz a' \<le> nz a1 + length (filter (\<lambda>x. x \<noteq> 0) (words_of raw_data bl))"
        using Cons.IH [OF f Cons.prems(2) rest] .
      with 1 show ?thesis by (simp add: w)
    qed
  qed
qed

lemma words_of_zip:
  assumes "length idx = length pairs"
  shows "words_of raw_data (zip idx pairs)
         = concat (map (\<lambda>(kk, nxt). int32_words (py_slice raw_data (kk + stamp_len) nxt)) pairs)"
  using assms
proof (induction idx pairs rule: list_induct2)
  case Nil
  then show ?case by (simp add: words_of_def)
next
  case (Cons i idx p pairs)
  obtain kk nxt where p: "p = (kk, nxt)" by (cases p)
  from Cons.IH show ?case by (simp add: words_of_def p)
qed

lemma nz_replicate_0 [simp]: "nz (replicate n 0) = 0"
  by (simp add: nz_def)



lemma length_stamp_bytes [simp]: "length (stamp_bytes t) = 36"
  by (simp add: stamp_bytes_def gps_stamp_def)

lemma raw3_slice:
  "py_slice raw3 36 48 = int32_bytes 5 @ int32_bytes 0 @ int32_bytes 7"
  unfolding raw3_def by (rule py_slice_mid) simp_all

lemma raw3_words: "int32_words (int32_bytes 5 @ int32_bytes 0 @ int32_bytes 7) = [5, 0, 7]"
proof -
  have "int32_words (int32_bytes 5 @ int32_bytes 0 @ int32_bytes 7 @ [])
        = [wrap_int32 5, wrap_int32 0, wrap_int32 7]"
    by (simp only: int32_words_bytes int32_words.simps)
  then show ?thesis by (simp add: wrap_int32_def)
qed

lemma raw3_block_words: "block_words raw3 [0, 48] = [5, 0, 7]"
  by (simp add: block_words_def stamp_len_def raw3_slice raw3_words)

lemma round_f32_small: "round_f32 5 = 5" "round_f32 7 = 7"
  by (simp_all add: round_f32_def f32_quantum_def)

lemma raw3_assign:
  "assign_slice (replicate 9 0) 0 3 [5, 0, 7] = Inr ([5, 0, 7] @ replicate 6 0)"
  by (simp add: assign_slice_def slice_bound_def)

lemma raw3_fill:
  "fill_data raw3 3 [(0, 0, 48)] (replicate 9 0) = Some (Inr ([5, 0, 7] @ replicate 6 0))"
  by (simp add: stamp_len_def raw3_slice raw3_words np_fromstring_int32_def round_f32_small
      raw3_assign)

lemma raw3_read:
  "read_data raw3 3 [0, 48]
   = Some (Inr [5 * counts_to_mv_conversion, 7 * counts_to_mv_conversion])"
proof -
  have b: "zip [0..<length [0, 48 :: int] - 1] (zip (butlast [0, 48]) (tl [0, 48 :: int]))
           = [(0, 0, 48)]"
    by simp
  have n: "nat ((int (length [0, 48 :: int]) + 1) * 3) = 9" by simp
  show ?thesis
    unfolding read_data_def Let_def b n raw3_fill
    by (simp add: np_nonzero_def)
qed


end
